theory Spec2Isabelle
  imports Complex_Main "HOL-Library.Char_ord" "HOL-Library.List_Lexorder"
begin

section \<open>Strings\<close>

text \<open>
  JavaScript strings are modelled as \<open>string\<close>, a list of 8-bit characters: the
  Latin-1 range of UTF-16 code units. \<open>a < b\<close> on strings is the lexicographic order of
  the code units, as in JavaScript.
\<close>

definition isSpace :: "char \<Rightarrow> bool" where
  \<comment> \<open>The white space \<open>String.prototype.trim\<close> removes, within Latin-1.\<close>
  "isSpace c = (c \<in> set [CHR 0x09, CHR 0x0A, CHR 0x0B, CHR 0x0C, CHR 0x0D, CHR 0x20, CHR 0xA0])"

definition trim :: "string \<Rightarrow> string" where
  "trim s = rev (dropWhile isSpace (rev (dropWhile isSpace s)))"

definition toLowerChar :: "char \<Rightarrow> char" where
  "toLowerChar c =
     (case map_of (zip ''ABCDEFGHIJKLMNOPQRSTUVWXYZ'' ''abcdefghijklmnopqrstuvwxyz'') c of
        Some d \<Rightarrow> d
      | None \<Rightarrow> c)"

definition toLowerCase :: "string \<Rightarrow> string" where
  "toLowerCase s = map toLowerChar s"

definition isNone :: "string \<Rightarrow> bool" where
  \<comment> \<open>\<open>String(adb).trim().toLowerCase() === 'none'\<close>\<close>
  "isNone adb = (toLowerCase (trim adb) = ''none'')"

definition isAlnum :: "char \<Rightarrow> bool" where
  "isAlnum c = (c \<in> set ''abcdefghijklmnopqrstuvwxyz0123456789'')"

definition normKey :: "string \<Rightarrow> string" where
  \<comment> \<open>\<open>String(s).trim().toLowerCase().replace(/[^a-z0-9]/g, '')\<close>\<close>
  "normKey s = filter isAlnum (toLowerCase (trim s))"

fun startsWith :: "string \<Rightarrow> string \<Rightarrow> bool" where
  "startsWith h [] = True"
| "startsWith [] (c # w) = False"
| "startsWith (d # h) (c # w) = (d = c \<and> startsWith h w)"

fun includesStr :: "string \<Rightarrow> string \<Rightarrow> bool" where
  "includesStr [] w = (w = [])"
| "includesStr (d # h) w = (startsWith (d # h) w \<or> includesStr h w)"

fun splitOn :: "(char \<Rightarrow> bool) \<Rightarrow> string \<Rightarrow> string list" where
  \<comment> \<open>\<open>split\<close> on a one-character separator: the empty string gives one empty field.\<close>
  "splitOn sep [] = [[]]"
| "splitOn sep (c # cs) =
     (if sep c then [] # splitOn sep cs
      else case splitOn sep cs of
             [] \<Rightarrow> [[c]]
           | w # ws \<Rightarrow> (c # w) # ws)"

fun findIndexFrom :: "nat \<Rightarrow> ('a \<Rightarrow> bool) \<Rightarrow> 'a list \<Rightarrow> nat option" where
  "findIndexFrom i p [] = None"
| "findIndexFrom i p (x # xs) = (if p x then Some i else findIndexFrom (Suc i) p xs)"

definition findIndex :: "('a \<Rightarrow> bool) \<Rightarrow> 'a list \<Rightarrow> nat option" where
  \<comment> \<open>\<open>None\<close> is JavaScript's \<open>-1\<close>.\<close>
  "findIndex p xs = findIndexFrom 0 p xs"

definition cell :: "string list \<Rightarrow> nat option \<Rightarrow> string" where
  \<comment> \<open>\<open>(parts[i] || '').trim()\<close>: a missing field reads as the empty string.\<close>
  "cell parts i =
     (case i of
        None \<Rightarrow> []
      | Some k \<Rightarrow> if k < length parts then trim (parts ! k) else [])"

definition setAdd :: "'a \<Rightarrow> 'a list \<Rightarrow> 'a list" where
  \<comment> \<open>\<open>Set.prototype.add\<close>: a \<open>Set\<close> keeps its elements in insertion order.\<close>
  "setAdd x xs = (if x \<in> set xs then xs else xs @ [x])"

section \<open>Table ingestion and graph assembly (tsv-to-graph.js)\<close>

text \<open>
  A value of a variable that holds a number or \<open>undefined\<close>. \<open>Num\<close> carries the finite
  numbers; the infinities are not modelled.
\<close>

datatype jsval = Undefined | NaN | Num real

datatype error = InputNotFound | UsageGraphError | NotFoundGraphError | TypeError

record args =
  sourceCol :: string
  targetCol :: string
  weightCol :: "string option"
  allDBsCol :: string
  afmprobCol :: string
  locality1Col :: string
  locality2Col :: string
  directed :: bool
  limit :: "real option"

text \<open>
  One element of \<open>edgesRawLoc\<close>: \<open>[a, b, w, adb, ap, locs1, locs2]\<close>. The script pushes
  the same row to \<open>edgesRaw\<close> as \<open>[a, b, w, adb, ap]\<close> with a \<open>NaN\<close> weight replaced by 1.
\<close>

record row =
  rowA :: string
  rowB :: string
  rowW :: jsval
  rowAdb :: string
  rowAp :: jsval
  locs1 :: "string list"
  locs2 :: "string list"

record ingest =
  header :: bool
  sIdx :: "nat option"
  tIdx :: "nat option"
  wIdx :: "nat option"
  adbIdx :: "nat option"
  apIdx :: "nat option"
  loc1Idx :: "nat option"
  loc2Idx :: "nat option"
  rowCount :: nat
  nodeSet :: "string list"
  edgesRawLoc :: "row list"
  nodeIdToAllDBs :: "string \<Rightarrow> string list option"
  nodeHasNone :: "string \<Rightarrow> bool"
  proteinToLocs :: "string \<Rightarrow> string list option"

definition initial :: ingest where
  "initial =
     \<lparr>header = False, sIdx = None, tIdx = None, wIdx = None, adbIdx = None, apIdx = None,
      loc1Idx = None, loc2Idx = None, rowCount = 0, nodeSet = [], edgesRawLoc = [],
      nodeIdToAllDBs = (\<lambda>_. None), nodeHasNone = (\<lambda>_. False), proteinToLocs = (\<lambda>_. None)\<rparr>"

definition matchCol :: "string \<Rightarrow> string list \<Rightarrow> nat option" where
  \<comment> \<open>\<open>colsNorm.findIndex(h => h === want || h.includes(want))\<close>\<close>
  "matchCol want colsNorm = findIndex (\<lambda>h. h = want \<or> includesStr h want) colsNorm"

definition optCol :: "string \<Rightarrow> string list \<Rightarrow> nat option" where
  \<comment> \<open>\<open>want ? colsNorm.findIndex(...) : -1\<close>: an empty \<open>want\<close> is falsy.\<close>
  "optCol want colsNorm = (if want = [] then None else matchCol want colsNorm)"

definition isTab :: "char \<Rightarrow> bool" where
  "isTab c = (c = CHR 0x09)"

definition detectHeader :: "args \<Rightarrow> ingest \<Rightarrow> string \<Rightarrow> ingest" where
  "detectHeader ar st line =
     (let cols = splitOn isTab line;
          colsNorm = map normKey cols;
          st' = st\<lparr>sIdx := matchCol (normKey (sourceCol ar)) colsNorm,
                   tIdx := matchCol (normKey (targetCol ar)) colsNorm,
                   wIdx := (case weightCol ar of
                              None \<Rightarrow> None
                            | Some wc \<Rightarrow> optCol (normKey wc) colsNorm),
                   adbIdx := optCol (normKey (allDBsCol ar)) colsNorm,
                   apIdx := optCol (normKey (afmprobCol ar)) colsNorm,
                   loc1Idx := optCol (normKey (locality1Col ar)) colsNorm,
                   loc2Idx := optCol (normKey (locality2Col ar)) colsNorm\<rparr>
      in if sIdx st' \<noteq> None \<and> tIdx st' \<noteq> None then st'\<lparr>header := True\<rparr> else st')"

definition isLocSep :: "char \<Rightarrow> bool" where
  "isLocSep c = (c \<in> set '',;|'')"

definition splitLocs :: "string \<Rightarrow> string list" where
  \<comment> \<open>\<open>String(s || '').split(/[,;|]/g).map(x => x.trim()).filter(Boolean)\<close>\<close>
  "splitLocs s = filter (\<lambda>x. x \<noteq> []) (map trim (splitOn isLocSep s))"

definition numberCell :: "(string \<Rightarrow> jsval) \<Rightarrow> string \<Rightarrow> jsval" where
  \<comment> \<open>\<open>Number((parts[i] || '').trim() || '0')\<close>, for the trimmed field.\<close>
  "numberCell toNumber c = toNumber (if c = [] then ''0'' else c)"

definition addADB :: "string \<Rightarrow> string \<Rightarrow> ingest \<Rightarrow> ingest" where
  "addADB ident v st =
     (if v = [] then st
      else
        let cur = (case nodeIdToAllDBs st ident of None \<Rightarrow> [] | Some s \<Rightarrow> s);
            st' = st\<lparr>nodeIdToAllDBs := (nodeIdToAllDBs st)(ident \<mapsto> setAdd v cur)\<rparr>
        in if isNone v then st'\<lparr>nodeHasNone := (nodeHasNone st')(ident := True)\<rparr> else st')"

definition addLocs :: "string \<Rightarrow> string list \<Rightarrow> ingest \<Rightarrow> ingest" where
  "addLocs ident arr st =
     (if arr = [] then st
      else
        let cur = (case proteinToLocs st ident of None \<Rightarrow> [] | Some s \<Rightarrow> s)
        in st\<lparr>proteinToLocs := (proteinToLocs st)(ident \<mapsto> foldl (\<lambda>s L. setAdd L s) cur arr)\<rparr>)"

definition processRow :: "(string \<Rightarrow> jsval) \<Rightarrow> ingest \<Rightarrow> string \<Rightarrow> ingest" where
  \<comment> \<open>The body of the reading loop for a data line. \<open>toNumber\<close> is JavaScript's
      \<open>Number\<close> on strings. The display-name columns are left out.\<close>
  "processRow toNumber st line =
     (let parts = splitOn isTab line;
          a = cell parts (sIdx st);
          b = cell parts (tIdx st)
      in if a = [] \<or> b = [] then st
         else
           let w = (case wIdx st of
                      None \<Rightarrow> Num 1
                    | Some i \<Rightarrow> numberCell toNumber (cell parts (Some i)));
               adb = (case adbIdx st of None \<Rightarrow> [] | Some i \<Rightarrow> cell parts (Some i));
               ap = (case apIdx st of
                       None \<Rightarrow> Undefined
                     | Some i \<Rightarrow> numberCell toNumber (cell parts (Some i)));
               rawLoc1 = (case loc1Idx st of None \<Rightarrow> [] | Some i \<Rightarrow> cell parts (Some i));
               rawLoc2 = (case loc2Idx st of None \<Rightarrow> [] | Some i \<Rightarrow> cell parts (Some i));
               l1 = splitLocs rawLoc1;
               l2 = splitLocs rawLoc2;
               st1 = st\<lparr>nodeSet := setAdd b (setAdd a (nodeSet st)),
                        edgesRawLoc := edgesRawLoc st @
                          [\<lparr>rowA = a, rowB = b, rowW = w, rowAdb = adb, rowAp = ap,
                            locs1 = l1, locs2 = l2\<rparr>]\<rparr>
           in addLocs b l2 (addLocs a l1 (addADB b adb (addADB a adb st1))))"

definition overLimit :: "nat \<Rightarrow> real option \<Rightarrow> bool" where
  \<comment> \<open>\<open>row > limit\<close>; \<open>None\<close> is \<open>Infinity\<close> (no \<open>--limit\<close>) or \<open>NaN\<close>.\<close>
  "overLimit r bound = (case bound of None \<Rightarrow> False | Some l \<Rightarrow> real r > l)"

fun scan :: "args \<Rightarrow> (string \<Rightarrow> jsval) \<Rightarrow> ingest \<Rightarrow> string list \<Rightarrow> ingest" where
  \<comment> \<open>The loop \<open>for await (const line of rl)\<close>.\<close>
  "scan ar toNumber st [] = st"
| "scan ar toNumber st (line # rest) =
     (if line = [] then scan ar toNumber st rest
      else if startsWith line ''#'' then scan ar toNumber st rest
      else if \<not> header st then scan ar toNumber (detectHeader ar st line) rest
      else
        let st' = st\<lparr>rowCount := rowCount st + 1\<rparr>
        in if overLimit (rowCount st') (limit ar) then st'
           else scan ar toNumber (processRow toNumber st' line) rest)"

subsection \<open>The graph\<close>

record edge =
  eid :: string
  source :: string
  target :: string
  weight :: jsval
  allDBs :: string
  afmprob :: "real option"

text \<open>
  The graphology graph: its nodes and its edges in insertion order. A simple graph refuses
  a second edge between two nodes (in the same direction, when directed).
\<close>

record ggraph =
  gnodes :: "string list"
  gedges :: "edge list"

definition hasNode :: "ggraph \<Rightarrow> string \<Rightarrow> bool" where
  "hasNode g n = (n \<in> set (gnodes g))"

definition linked :: "bool \<Rightarrow> edge list \<Rightarrow> string \<Rightarrow> string \<Rightarrow> bool" where
  "linked dir es a b =
     list_ex (\<lambda>e. (source e = a \<and> target e = b) \<or> (\<not> dir \<and> source e = b \<and> target e = a)) es"

definition addEdgeWithKey :: "bool \<Rightarrow> ggraph \<Rightarrow> edge \<Rightarrow> error + ggraph" where
  "addEdgeWithKey dir g e =
     (if \<not> hasNode g (source e) \<or> \<not> hasNode g (target e) then Inl NotFoundGraphError
      else if list_ex (\<lambda>x. eid x = eid e) (gedges g) then Inl UsageGraphError
      else if linked dir (gedges g) (source e) (target e) then Inl UsageGraphError
      else Inr (g\<lparr>gedges := gedges g @ [e]\<rparr>))"

definition edgeKey :: "bool \<Rightarrow> string \<Rightarrow> string \<Rightarrow> string" where
  "edgeKey dir a b =
     (if dir then a @ ''->'' @ b else if a < b then a @ ''|'' @ b else b @ ''|'' @ a)"

definition coerceWeight :: "jsval \<Rightarrow> jsval" where
  \<comment> \<open>The weight pushed to \<open>edgesRaw\<close>: 1 when \<open>Number.isNaN(w)\<close>.\<close>
  "coerceWeight w = (if w = NaN then Num 1 else w)"

definition scoreOf :: "jsval \<Rightarrow> real option" where
  \<comment> \<open>\<open>typeof ap === 'number' && !Number.isNaN(ap) ? ap : undefined\<close>\<close>
  "scoreOf ap = (case ap of Num p \<Rightarrow> Some p | _ \<Rightarrow> None)"

fun addEdges :: "bool \<Rightarrow> ggraph \<Rightarrow> string set \<Rightarrow> row list \<Rightarrow> error + ggraph" where
  \<comment> \<open>The loop over \<open>edgesRaw\<close> with the set \<open>seen\<close> of keys.\<close>
  "addEdges dir g seen [] = Inr g"
| "addEdges dir g seen (r # rs) =
     (if \<not> hasNode g (rowA r) \<or> \<not> hasNode g (rowB r) then addEdges dir g seen rs
      else
        let key = edgeKey dir (rowA r) (rowB r)
        in if key \<in> seen then addEdges dir g seen rs
           else case addEdgeWithKey dir g
                       \<lparr>eid = key, source = rowA r, target = rowB r,
                        weight = coerceWeight (rowW r), allDBs = rowAdb r,
                        afmprob = scoreOf (rowAp r)\<rparr> of
                  Inl err \<Rightarrow> Inl err
                | Inr g' \<Rightarrow> addEdges dir g' (insert key seen) rs)"

definition buildGraph :: "bool \<Rightarrow> ingest \<Rightarrow> error + ggraph" where
  "buildGraph dir st = addEdges dir \<lparr>gnodes = nodeSet st, gedges = []\<rparr> {} (edgesRawLoc st)"

subsection \<open>Export of the default dataset\<close>

record node =
  nid :: string
  degree :: nat

record dnode = node +
  allDBsOf :: "string list"
  hasAllDBsNone :: bool

record lnode = node +
  baseId :: string
  locality :: string

text \<open>
  A dataset as written to disk, without the fields the layout and community primitives
  fill in (position, size, community) and without the cluster list built from them.
\<close>

record 'n dataset =
  nodes :: "'n list"
  edges :: "edge list"
  adjacency :: "string \<Rightarrow> string list option"

definition graphDegree :: "ggraph \<Rightarrow> string \<Rightarrow> nat" where
  \<comment> \<open>graphology's \<open>degree\<close>: the edge ends at the node, a self-loop counting twice.\<close>
  "graphDegree g n =
     length (filter (\<lambda>e. source e = n) (gedges g)) + length (filter (\<lambda>e. target e = n) (gedges g))"

definition exportNode :: "ingest \<Rightarrow> ggraph \<Rightarrow> string \<Rightarrow> dnode" where
  "exportNode st g n =
     \<lparr>nid = n, degree = graphDegree g n,
      allDBsOf = (case nodeIdToAllDBs st n of None \<Rightarrow> [] | Some s \<Rightarrow> s),
      hasAllDBsNone = nodeHasNone st n\<rparr>"

definition push :: "(string \<Rightarrow> string list option) \<Rightarrow> string \<Rightarrow> string
    \<Rightarrow> error + (string \<Rightarrow> string list option)" where
  \<comment> \<open>\<open>adjacency[k].push(v)\<close> throws a TypeError when \<open>adjacency[k]\<close> is undefined.\<close>
  "push adj k v = (case adj k of None \<Rightarrow> Inl TypeError | Some l \<Rightarrow> Inr (adj(k \<mapsto> l @ [v])))"

fun pushEdges :: "(string \<Rightarrow> string list option) \<Rightarrow> edge list
    \<Rightarrow> error + (string \<Rightarrow> string list option)" where
  "pushEdges adj [] = Inr adj"
| "pushEdges adj (e # es) =
     (case push adj (source e) (target e) of
        Inl err \<Rightarrow> Inl err
      | Inr adj1 \<Rightarrow>
          (case push adj1 (target e) (source e) of
             Inl err \<Rightarrow> Inl err
           | Inr adj2 \<Rightarrow> pushEdges adj2 es))"

definition emptyLists :: "string list \<Rightarrow> string \<Rightarrow> string list option" where
  \<comment> \<open>\<open>adjacency[id] = []\<close> for every node.\<close>
  "emptyLists ns = (\<lambda>k. if k \<in> set ns then Some [] else None)"

definition exportEdge :: "edge \<Rightarrow> edge" where
  \<comment> \<open>\<open>weight: attrs.weight ?? 1\<close>; \<open>attrs.allDBs || ''\<close> is the tag itself.\<close>
  "exportEdge e = e\<lparr>weight := (if weight e = Undefined then Num 1 else weight e)\<rparr>"

definition exportGraph :: "ingest \<Rightarrow> ggraph \<Rightarrow> error + dnode dataset" where
  "exportGraph st g =
     (case pushEdges (emptyLists (gnodes g)) (gedges g) of
        Inl err \<Rightarrow> Inl err
      | Inr adj \<Rightarrow>
          Inr \<lparr>nodes = map (exportNode st g) (gnodes g), edges = map exportEdge (gedges g),
               adjacency = adj\<rparr>)"

subsection \<open>The locality view\<close>

definition nodeKey :: "string \<Rightarrow> string \<Rightarrow> string" where
  \<comment> \<open>\<open>`${id}@${loc || 'unknown'}`\<close>\<close>
  "nodeKey ident loc = ident @ ''@'' @ (if loc = [] then ''unknown'' else loc)"

definition locsOf :: "ingest \<Rightarrow> string \<Rightarrow> string list" where
  \<comment> \<open>\<open>proteinToLocs[id] ? Array.from(proteinToLocs[id]) : ['unknown']\<close>\<close>
  "locsOf st ident = (case proteinToLocs st ident of None \<Rightarrow> [''unknown''] | Some s \<Rightarrow> s)"

record lstate =
  nodesOutL :: "lnode list"
  edgesOutL :: "edge list"
  adjacencyL :: "string \<Rightarrow> string list option"
  nodeSeenL :: "string set"
  seenEdgesL :: "string set"

definition addInstance :: "lstate \<Rightarrow> string \<times> string \<Rightarrow> lstate" where
  \<comment> \<open>The body of the loops that create the node instances.\<close>
  "addInstance s p =
     (let key = nodeKey (fst p) (snd p)
      in if key \<in> nodeSeenL s then s
         else s\<lparr>nodeSeenL := insert key (nodeSeenL s),
                nodesOutL := nodesOutL s @
                  [\<lparr>nid = key, degree = 0, baseId = fst p, locality = snd p\<rparr>],
                adjacencyL := (adjacencyL s)(key \<mapsto> [])\<rparr>)"

definition instancePairs :: "ingest \<Rightarrow> (string \<times> string) list" where
  \<comment> \<open>\<open>for (const id of nodeSet) for (const loc of locs)\<close>\<close>
  "instancePairs st = concat (map (\<lambda>ident. map (\<lambda>loc. (ident, loc)) (locsOf st ident)) (nodeSet st))"

definition createInstances :: "ingest \<Rightarrow> lstate" where
  "createInstances st =
     foldl addInstance \<lparr>nodesOutL = [], edgesOutL = [], adjacencyL = (\<lambda>_. None),
                       nodeSeenL = {}, seenEdgesL = {}\<rparr>
       (instancePairs st)"

definition nodeIndexL :: "lnode list \<Rightarrow> string \<Rightarrow> nat option" where
  \<comment> \<open>\<open>nodesOutL.forEach((n, i) => nodeIndexL[n.id] = i)\<close>\<close>
  "nodeIndexL ns = foldl (\<lambda>m p. m(nid (snd p) \<mapsto> fst p)) (\<lambda>_. None) (enumerate 0 ns)"

definition firstOr :: "string list \<Rightarrow> string" where
  \<comment> \<open>\<open>locs[0] || 'unknown'\<close>\<close>
  "firstOr locs = (case locs of [] \<Rightarrow> ''unknown'' | l # _ \<Rightarrow> if l = [] then ''unknown'' else l)"

definition usedLocs :: "string list \<Rightarrow> string list \<Rightarrow> string \<times> string" where
  \<comment> \<open>The first element of \<open>aLocs\<close> that \<open>bLocs\<close> contains, for both ends; otherwise the
      first element of each list.\<close>
  "usedLocs aLocs bLocs =
     (case find (\<lambda>la. la \<in> set bLocs) aLocs of
        Some la \<Rightarrow> (la, la)
      | None \<Rightarrow> (firstOr aLocs, firstOr bLocs))"

definition aLocsOf :: "ingest \<Rightarrow> row \<Rightarrow> string list" where
  "aLocsOf st r = (if locs1 r \<noteq> [] then locs1 r else locsOf st (rowA r))"

definition bLocsOf :: "ingest \<Rightarrow> row \<Rightarrow> string list" where
  "bLocsOf st r = (if locs2 r \<noteq> [] then locs2 r else locsOf st (rowB r))"

definition aKeyOf :: "ingest \<Rightarrow> row \<Rightarrow> string" where
  "aKeyOf st r = nodeKey (rowA r) (fst (usedLocs (aLocsOf st r) (bLocsOf st r)))"

definition bKeyOf :: "ingest \<Rightarrow> row \<Rightarrow> string" where
  "bKeyOf st r = nodeKey (rowB r) (snd (usedLocs (aLocsOf st r) (bLocsOf st r)))"

definition edgeIdL :: "string \<Rightarrow> string \<Rightarrow> string" where
  "edgeIdL aKey bKey = (if aKey < bKey then aKey @ ''|'' @ bKey else bKey @ ''|'' @ aKey)"

definition orOne :: "jsval \<Rightarrow> jsval" where
  \<comment> \<open>\<open>w || 1\<close>: \<open>NaN\<close>, 0 and \<open>undefined\<close> are falsy.\<close>
  "orOne w = (case w of Num x \<Rightarrow> if x = 0 then Num 1 else Num x | _ \<Rightarrow> Num 1)"

definition bump :: "nat option \<Rightarrow> lnode list \<Rightarrow> error + lnode list" where
  \<comment> \<open>\<open>nodesOutL[nodeIndexL[key]].degree += 1\<close>\<close>
  "bump i ns =
     (case i of
        None \<Rightarrow> Inl TypeError
      | Some k \<Rightarrow>
          if k < length ns then Inr (ns[k := (ns ! k)\<lparr>degree := degree (ns ! k) + 1\<rparr>])
          else Inl TypeError)"

definition localityEdge :: "ingest \<Rightarrow> (string \<Rightarrow> nat option) \<Rightarrow> lstate \<Rightarrow> row \<Rightarrow> error + lstate" where
  \<comment> \<open>The body of the loop over \<open>edgesRawLoc\<close>; \<open>idx\<close> is \<open>nodeIndexL\<close>.\<close>
  "localityEdge st idx s r =
     (let aKey = aKeyOf st r;
          bKey = bKeyOf st r
      in if idx aKey = None \<or> idx bKey = None then Inr s
         else
           let edgeId = edgeIdL aKey bKey
           in if edgeId \<in> seenEdgesL s then Inr s
              else
                case push (adjacencyL s) aKey bKey of
                  Inl err \<Rightarrow> Inl err
                | Inr adj1 \<Rightarrow>
                    (case push adj1 bKey aKey of
                       Inl err \<Rightarrow> Inl err
                     | Inr adj2 \<Rightarrow>
                         (case bump (idx aKey) (nodesOutL s) of
                            Inl err \<Rightarrow> Inl err
                          | Inr ns1 \<Rightarrow>
                              (case bump (idx bKey) ns1 of
                                 Inl err \<Rightarrow> Inl err
                               | Inr ns2 \<Rightarrow>
                                   Inr (s\<lparr>seenEdgesL := insert edgeId (seenEdgesL s),
                                          edgesOutL := edgesOutL s @
                                            [\<lparr>eid = edgeId, source = aKey, target = bKey,
                                              weight = orOne (rowW r), allDBs = rowAdb r,
                                              afmprob = scoreOf (rowAp r)\<rparr>],
                                          adjacencyL := adj2,
                                          nodesOutL := ns2\<rparr>)))))"

fun localityEdges :: "ingest \<Rightarrow> (string \<Rightarrow> nat option) \<Rightarrow> lstate \<Rightarrow> row list \<Rightarrow> error + lstate" where
  "localityEdges st idx s [] = Inr s"
| "localityEdges st idx s (r # rs) =
     (case localityEdge st idx s r of
        Inl err \<Rightarrow> Inl err
      | Inr s' \<Rightarrow> localityEdges st idx s' rs)"

definition localityView :: "ingest \<Rightarrow> error + lnode dataset" where
  "localityView st =
     (let s0 = createInstances st;
          idx = nodeIndexL (nodesOutL s0)
      in case localityEdges st idx s0 (edgesRawLoc st) of
           Inl err \<Rightarrow> Inl err
         | Inr s \<Rightarrow> Inr \<lparr>nodes = nodesOutL s, edges = edgesOutL s, adjacency = adjacencyL s\<rparr>)"

subsection \<open>The run\<close>

text \<open>
  \<open>run\<close> reads the lines of the input file (\<open>None\<close>: no \<open>--input\<close>, or no such file),
  writes the default dataset and then the locality dataset. An exception anywhere ends the
  process with exit code 1. The layout and community primitives are taken to return
  normally. The earlier version of the script is the same run without the locality view.
\<close>

datatype outcome =
    Exit1 error
  | ExitAfterDefault "dnode dataset" error
  | Wrote "dnode dataset" "lnode dataset"

definition run :: "args \<Rightarrow> (string \<Rightarrow> jsval) \<Rightarrow> string list option \<Rightarrow> outcome" where
  "run ar toNumber file =
     (case file of
        None \<Rightarrow> Exit1 InputNotFound
      | Some ls \<Rightarrow>
          let st = scan ar toNumber initial ls
          in case buildGraph (directed ar) st of
               Inl err \<Rightarrow> Exit1 err
             | Inr g \<Rightarrow>
                 (case exportGraph st g of
                    Inl err \<Rightarrow> Exit1 err
                  | Inr d \<Rightarrow>
                      (case localityView st of
                         Inl err \<Rightarrow> ExitAfterDefault d err
                       | Inr l \<Rightarrow> Wrote d l)))"

section \<open>Notions used in the statements\<close>

definition rowKey :: "bool \<Rightarrow> row \<Rightarrow> string" where
  "rowKey dir r = edgeKey dir (rowA r) (rowB r)"

definition rowEdge :: "bool \<Rightarrow> row \<Rightarrow> edge" where
  \<comment> \<open>The edge that the assembly loop adds for a row.\<close>
  "rowEdge dir r =
     \<lparr>eid = rowKey dir r, source = rowA r, target = rowB r, weight = coerceWeight (rowW r),
      allDBs = rowAdb r, afmprob = scoreOf (rowAp r)\<rparr>"

fun firstBy :: "('a \<Rightarrow> string) \<Rightarrow> string set \<Rightarrow> 'a list \<Rightarrow> 'a list" where
  \<comment> \<open>The elements whose key is not in \<open>seen\<close> and not the key of an earlier element.\<close>
  "firstBy key seen [] = []"
| "firstBy key seen (r # rs) =
     (if key r \<in> seen then firstBy key seen rs
      else r # firstBy key (insert (key r) seen) rs)"

definition namesBoth :: "args \<Rightarrow> string \<Rightarrow> bool" where
  \<comment> \<open>The line, read as a header, gives both \<open>sIdx\<close> and \<open>tIdx\<close>.\<close>
  "namesBoth ar line =
     (let colsNorm = map normKey (splitOn isTab line)
      in matchCol (normKey (sourceCol ar)) colsNorm \<noteq> None \<and>
         matchCol (normKey (targetCol ar)) colsNorm \<noteq> None)"

definition touches :: "row \<Rightarrow> string \<Rightarrow> bool" where
  "touches r n = (rowA r = n \<or> rowB r = n)"

definition ingestInv :: "ingest \<Rightarrow> bool" where
  \<comment> \<open>What the reading loop maintains.\<close>
  "ingestInv st =
     (distinct (nodeSet st) \<and>
      (\<forall>r \<in> set (edgesRawLoc st).
          rowA r \<in> set (nodeSet st) \<and> rowB r \<in> set (nodeSet st) \<and>
          (locs1 r \<noteq> [] \<longrightarrow> (\<exists>s. proteinToLocs st (rowA r) = Some s \<and> set (locs1 r) \<subseteq> set s)) \<and>
          (locs2 r \<noteq> [] \<longrightarrow> (\<exists>s. proteinToLocs st (rowB r) = Some s \<and> set (locs2 r) \<subseteq> set s))) \<and>
      (\<forall>n. nodeHasNone st n = (\<exists>r \<in> set (edgesRawLoc st). touches r n \<and> isNone (rowAdb r))) \<and>
      (\<forall>n s. proteinToLocs st n = Some s \<longrightarrow> s \<noteq> [] \<and> [] \<notin> set s))"

definition adjOf :: "edge list \<Rightarrow> string \<Rightarrow> string list" where
  \<comment> \<open>The neighbour list of a node: one entry per edge end, in edge order.\<close>
  "adjOf es n =
     concat (map (\<lambda>e. (if source e = n then [target e] else []) @
                       (if target e = n then [source e] else [])) es)"

definition symmetricAdj :: "(string \<Rightarrow> string list option) \<Rightarrow> bool" where
  \<comment> \<open>\<open>b\<close> is in \<open>adjacency[a]\<close> if and only if \<open>a\<close> is in \<open>adjacency[b]\<close>.\<close>
  "symmetricAdj adj =
     (\<forall>a b. (\<exists>l. adj a = Some l \<and> b \<in> set l) = (\<exists>l. adj b = Some l \<and> a \<in> set l))"

definition degreesMatch :: "('m node_scheme) list \<Rightarrow> (string \<Rightarrow> string list option) \<Rightarrow> bool" where
  \<comment> \<open>Every node's \<open>degree\<close> is the length of its adjacency list.\<close>
  "degreesMatch ns adj = (\<forall>n \<in> set ns. \<exists>l. adj (nid n) = Some l \<and> degree n = length l)"

definition wellFormed :: "ggraph \<Rightarrow> bool" where
  \<comment> \<open>A graphology graph: distinct nodes, every edge between nodes of the graph.\<close>
  "wellFormed g =
     (distinct (gnodes g) \<and>
      (\<forall>e \<in> set (gedges g). source e \<in> set (gnodes g) \<and> target e \<in> set (gnodes g)))"

definition graphInv :: "bool \<Rightarrow> ggraph \<Rightarrow> string set \<Rightarrow> bool" where
  \<comment> \<open>What the assembly loop maintains: \<open>seen\<close> holds the keys of the edges added.\<close>
  "graphInv dir g seen = (seen = eid ` set (gedges g) \<and>
      (\<forall>e \<in> set (gedges g). eid e = edgeKey dir (source e) (target e)))"

definition locKey :: "ingest \<Rightarrow> row \<Rightarrow> string" where
  "locKey st r = edgeIdL (aKeyOf st r) (bKeyOf st r)"

definition locEdge :: "ingest \<Rightarrow> row \<Rightarrow> edge" where
  \<comment> \<open>The edge that the locality loop adds for a row.\<close>
  "locEdge st r =
     \<lparr>eid = locKey st r, source = aKeyOf st r, target = bKeyOf st r, weight = orOne (rowW r),
      allDBs = rowAdb r, afmprob = scoreOf (rowAp r)\<rparr>"

definition instInv :: "lstate \<Rightarrow> bool" where
  \<comment> \<open>What the loops that create the node instances maintain.\<close>
  "instInv s =
     (nodeSeenL s = nid ` set (nodesOutL s) \<and> distinct (map nid (nodesOutL s)) \<and>
      (\<forall>n \<in> set (nodesOutL s). degree n = 0 \<and> nid n = nodeKey (baseId n) (locality n)) \<and>
      adjacencyL s = (\<lambda>k. if k \<in> nodeSeenL s then Some [] else None) \<and>
      edgesOutL s = [] \<and> seenEdgesL s = {})"

definition locInv :: "string list \<Rightarrow> lstate \<Rightarrow> bool" where
  \<comment> \<open>What the locality edge loop maintains, for the node ids \<open>ids\<close>.\<close>
  "locInv ids s =
     (map nid (nodesOutL s) = ids \<and>
      adjacencyL s = (\<lambda>n. if n \<in> set ids then Some (adjOf (edgesOutL s) n) else None) \<and>
      (\<forall>e \<in> set (edgesOutL s). source e \<in> set ids \<and> target e \<in> set ids) \<and>
      (\<forall>m < length ids. degree (nodesOutL s ! m) = length (adjOf (edgesOutL s) (ids ! m))) \<and>
      seenEdgesL s = eid ` set (edgesOutL s))"

section \<open>The viewer's graph and its filters (GraphViewer)\<close>

text \<open>
  An edge of the viewer's graph carries the attributes of the dataset's edge and the
  \<open>hidden\<close> flag the filters write. A node carries \<open>isCluster\<close> and \<open>degree\<close>; the
  attributes that only the renderer reads (position, size, colour, label) are left out.
\<close>

record vedge = edge +
  hidden :: bool

record vnode =
  vid :: string
  isCluster :: bool
  vdegree :: int

record vgraph =
  vnodes :: "vnode list"
  vedges :: "vedge list"

record totals =
  tnodes :: nat
  tedges :: nat
  tblueEdges :: nat

definition hideByConf :: "real option \<Rightarrow> real \<Rightarrow> bool" where
  \<comment> \<open>\<open>typeof ap === 'number' && ap < conf\<close>\<close>
  "hideByConf ap conf = (case ap of None \<Rightarrow> False | Some p \<Rightarrow> p < conf)"

definition totalsNodeStep ::
  "int \<Rightarrow> bool \<Rightarrow> string set \<Rightarrow> nat \<times> string set \<Rightarrow> vnode \<Rightarrow> nat \<times> string set" where
  "totalsNodeStep thr onlyNew blue acc n =
     (if isCluster n then acc
      else
        let deg = vdegree n;
            hideByDeg = (thr > 0 \<and> deg < thr);
            hideByNew = (onlyNew \<and> vid n \<notin> blue)
        in if \<not> (hideByDeg \<or> hideByNew) then (fst acc + 1, insert (vid n) (snd acc)) else acc)"

definition totalsEdgeStep ::
  "string set \<Rightarrow> bool \<Rightarrow> real \<Rightarrow> nat \<times> nat \<Rightarrow> vedge \<Rightarrow> nat \<times> nat" where
  "totalsEdgeStep visibleNodes onlyNew conf acc e =
     (if source e \<notin> visibleNodes \<or> target e \<notin> visibleNodes then acc
      else if hideByConf (afmprob e) conf then acc
      else if onlyNew \<and> \<not> isNone (allDBs e) then acc
      else (fst acc + 1, if isNone (allDBs e) then snd acc + 1 else snd acc))"

definition visibleNodesOf :: "vgraph \<Rightarrow> int \<Rightarrow> bool \<Rightarrow> string set \<Rightarrow> nat \<times> string set" where
  "visibleNodesOf g thr onlyNew blue = foldl (totalsNodeStep thr onlyNew blue) (0, {}) (vnodes g)"

definition recomputeTotalsImmediate ::
  "vgraph \<Rightarrow> int \<Rightarrow> bool \<Rightarrow> real \<Rightarrow> string set \<Rightarrow> totals" where
  \<comment> \<open>\<open>thr\<close>, \<open>onlyNew\<close>, \<open>conf\<close> and \<open>blue\<close> are the values the function reads from
      \<open>degreeThresholdRef\<close>, \<open>showOnlyNewRef\<close>, \<open>confidence\<close> and \<open>nodesBlueSetRef\<close>.\<close>
  "recomputeTotalsImmediate g thr onlyNew conf blue =
     (let nv = visibleNodesOf g thr onlyNew blue;
          ec = foldl (totalsEdgeStep (snd nv) onlyNew conf) (0, 0) (vedges g)
      in \<lparr>tnodes = fst nv, tedges = fst ec, tblueEdges = snd ec\<rparr>)"


subsection \<open>Per-edge hidden flags\<close>

definition truthy :: "string option \<Rightarrow> bool" where
  \<comment> \<open>A node id that is \<open>undefined\<close>, \<open>null\<close> or the empty string is falsy.\<close>
  "truthy v = (case v of None \<Rightarrow> False | Some n \<Rightarrow> n \<noteq> [])"

record camState =
  camX :: real
  camY :: real
  ratio :: real
  angle :: real

text \<open>
  The state of one mounted viewer with the Sigma renderer, between two events: the graph,
  the dataset's adjacency map, the camera, the component's state as of the last render
  (\<open>showOnlyNew\<close>, \<open>showAllEdges\<close>, \<open>confidence\<close>, \<open>degreeThreshold\<close>, \<open>totals\<close>),
  the refs the handlers read and write, and the \<open>last\<close> of the two throttled functions.
  \<open>defocusTimerRef\<close> is true while the 180 ms defocus timer is pending. A handler created
  by a render reads the state of that render; a ref is read at the time of the call.
\<close>

record viewer =
  graph :: vgraph
  adjacencyRef :: "string \<Rightarrow> string list option"
  camera :: camState
  showOnlyNew :: bool
  showAllEdges :: bool
  confidence :: real
  degreeThreshold :: int
  totals :: totals
  showEdgesRef :: bool
  showAllEdgesRef :: bool
  showOnlyNewRef :: bool
  confidenceRef :: real
  degreeThresholdRef :: int
  nodesBlueSetRef :: "string set"
  focusedNodeRef :: "string option"
  prevCamStateRef :: "camState option"
  defocusTimerRef :: bool
  isAnimatingRef :: bool
  suppressCamAnimRef :: bool
  lastSetHovered :: real
  lastPreviewHover :: real

definition throttle :: "real \<Rightarrow> real \<Rightarrow> real \<Rightarrow> bool" where
  \<comment> \<open>\<open>throttle(fn, ms)\<close>: a call at time \<open>now\<close> runs \<open>fn\<close> when \<open>now - last >= ms\<close>, and
      then \<open>last\<close> becomes \<open>now\<close>; otherwise the call is dropped.\<close>
  "throttle ms lastRun now = (now - lastRun \<ge> ms)"

definition showAllEdgesFlag :: "bool \<Rightarrow> bool \<Rightarrow> real \<Rightarrow> vedge \<Rightarrow> bool" where
  \<comment> \<open>The body of the loop of the effect on \<open>[showAllEdges, confidence, showOnlyNew]\<close>:
      the new value of \<open>hidden\<close>. \<open>showAll\<close> and \<open>conf\<close> are the \<open>showAllEdges\<close> and
      \<open>confidence\<close> of the render, \<open>onlyNew\<close> is \<open>showOnlyNewRef.current\<close>.\<close>
  "showAllEdgesFlag showAll onlyNew conf e =
     (let isN = isNone (allDBs e);
          hideByNew = (onlyNew \<and> \<not> isN);
          hideByC = hideByConf (afmprob e) conf;
          shouldShow = (showAll \<and> \<not> (hideByNew \<or> hideByC))
      in \<not> shouldShow)"

definition showAllEdgesEffect :: "bool \<Rightarrow> real \<Rightarrow> viewer \<Rightarrow> viewer" where
  \<comment> \<open>\<open>showAll\<close> and \<open>conf\<close> are the \<open>showAllEdges\<close> and \<open>confidence\<close> of the render
      that the effect follows; the effect returns at once while a node is focused.\<close>
  "showAllEdgesEffect showAll conf v =
     (if truthy (focusedNodeRef v) then v
      else v\<lparr>graph := (graph v)\<lparr>vedges :=
             map (\<lambda>e. e\<lparr>hidden := showAllEdgesFlag showAll (showOnlyNewRef v) conf e\<rparr>)
               (vedges (graph v))\<rparr>\<rparr>)"

definition neighborStep :: "string \<Rightarrow> bool \<Rightarrow> real \<Rightarrow> string set \<Rightarrow> vedge \<Rightarrow> string set" where
  "neighborStep node onlyNew conf neighbors e =
     (if \<not> (source e = node \<or> target e = node) then neighbors
      else if onlyNew \<and> \<not> isNone (allDBs e) then neighbors
      else if hideByConf (afmprob e) conf then neighbors
      else insert (target e) (insert (source e) neighbors))"

definition hoverNeighbors :: "vgraph \<Rightarrow> string option \<Rightarrow> bool \<Rightarrow> real \<Rightarrow> string set" where
  "hoverNeighbors g node onlyNew conf =
     (case node of
        None \<Rightarrow> {}
      | Some n \<Rightarrow> if n = [] then {} else foldl (neighborStep n onlyNew conf) {n} (vedges g))"

definition hoverEdgeHidden :: "viewer \<Rightarrow> string option \<Rightarrow> string set \<Rightarrow> vedge \<Rightarrow> bool" where
  \<comment> \<open>The edge loops of \<open>setHovered\<close>: the new value of \<open>hidden\<close>.\<close>
  "hoverEdgeHidden v node neighbors e =
     (let isN = isNone (allDBs e);
          hideByNew = (showOnlyNewRef v \<and> \<not> isN);
          hideByC = hideByConf (afmprob e) (confidenceRef v)
      in if showEdgesRef v \<and> \<not> showAllEdgesRef v then
           let visible = (if truthy node then source e \<in> neighbors \<and> target e \<in> neighbors else False)
           in \<not> visible \<or> hideByNew \<or> hideByC
         else
           let notFocused = \<not> truthy (focusedNodeRef v);
               defaultHidden = (if showAllEdgesRef v \<and> notFocused then False else True)
           in defaultHidden \<or> hideByNew \<or> hideByC)"

definition animate :: "camState option \<Rightarrow> camState \<Rightarrow> camState" where
  \<comment> \<open>The camera once \<open>cam.animate(st)\<close> has reached its target; the fallback target
      \<open>{ratio: 1}\<close> (no snapshot) changes the ratio only.\<close>
  "animate st cam = (case st of Some t \<Rightarrow> t | None \<Rightarrow> cam\<lparr>ratio := 1\<rparr>)"

definition setHoveredBody :: "(string \<Rightarrow> camState \<Rightarrow> camState) \<Rightarrow> string option \<Rightarrow> viewer \<Rightarrow> viewer" where
  \<comment> \<open>The function that \<open>setHovered\<close> throttles. \<open>focusTarget node current\<close> is the clamped
      camera target the handler computes from the node's position and the graph's bounds.
      The writes to node attributes and the gene-summary lookup are left out.\<close>
  "setHoveredBody focusTarget node v =
     (let neighbors = hoverNeighbors (graph v) node (showOnlyNewRef v) (confidenceRef v);
          g' = (graph v)\<lparr>vedges := map (\<lambda>e. e\<lparr>hidden := hoverEdgeHidden v node neighbors e\<rparr>)
                  (vedges (graph v))\<rparr>;
          v1 = v\<lparr>graph := g'\<rparr>
      in case node of
           Some n \<Rightarrow>
             if n \<noteq> [] then
               let v2 = (if focusedNodeRef v1 \<noteq> Some n \<and> \<not> truthy (focusedNodeRef v1)
                         then v1\<lparr>prevCamStateRef := Some (camera v1)\<rparr> else v1);
                   v3 = v2\<lparr>focusedNodeRef := Some n\<rparr>;
                   target = focusTarget n (camera v3)
               in if \<not> suppressCamAnimRef v3 \<and> \<not> isAnimatingRef v3
                  then v3\<lparr>isAnimatingRef := True, camera := target\<rparr>
                  else v3
             else if truthy (focusedNodeRef v1) then v1\<lparr>defocusTimerRef := True\<rparr> else v1
         | None \<Rightarrow> if truthy (focusedNodeRef v1) then v1\<lparr>defocusTimerRef := True\<rparr> else v1)"

definition setHovered ::
  "(string \<Rightarrow> camState \<Rightarrow> camState) \<Rightarrow> real \<Rightarrow> string option \<Rightarrow> viewer \<Rightarrow> viewer" where
  \<comment> \<open>\<open>const setHovered = throttle((node) => {...}, 24)\<close>, called at time \<open>now\<close>.\<close>
  "setHovered focusTarget now node v =
     (if throttle 24 (lastSetHovered v) now
      then setHoveredBody focusTarget node (v\<lparr>lastSetHovered := now\<rparr>)
      else v)"

definition previewHoverFlag :: "viewer \<Rightarrow> string option \<Rightarrow> vedge \<Rightarrow> bool" where
  \<comment> \<open>The edge loops of \<open>previewHover\<close>: the new value of \<open>hidden\<close>.\<close>
  "previewHoverFlag v node e =
     (if showEdgesRef v then
        let nbSet = (case node of
                       None \<Rightarrow> {}
                     | Some n \<Rightarrow>
                         if n = [] then {}
                         else insert n (set (case adjacencyRef v n of None \<Rightarrow> [] | Some nbs \<Rightarrow> nbs)));
            vis = (if truthy node then source e \<in> nbSet \<and> target e \<in> nbSet else False)
        in \<not> vis
      else True)"

definition previewHoverBody :: "string option \<Rightarrow> viewer \<Rightarrow> viewer" where
  \<comment> \<open>The function that \<open>previewHover\<close> throttles; it returns at once while a node is
      focused.\<close>
  "previewHoverBody node v =
     (if truthy (focusedNodeRef v) then v
      else v\<lparr>graph := (graph v)\<lparr>vedges :=
             map (\<lambda>e. e\<lparr>hidden := previewHoverFlag v node e\<rparr>) (vedges (graph v))\<rparr>\<rparr>)"

definition previewHover :: "real \<Rightarrow> string option \<Rightarrow> viewer \<Rightarrow> viewer" where
  "previewHover now node v =
     (if throttle 24 (lastPreviewHover v) now
      then previewHoverBody node (v\<lparr>lastPreviewHover := now\<rparr>)
      else v)"

definition defocusEdgeFlag :: "viewer \<Rightarrow> vedge \<Rightarrow> bool" where
  "defocusEdgeFlag v e =
     (if (showOnlyNewRef v \<and> \<not> isNone (allDBs e)) \<or> hideByConf (afmprob e) (confidenceRef v)
      then True else hidden e)"

definition defocusTimerFires :: "viewer \<Rightarrow> viewer" where
  \<comment> \<open>The callback of the defocus timer.\<close>
  "defocusTimerFires v =
     (if \<not> defocusTimerRef v then v
      else v\<lparr>defocusTimerRef := False,
             isAnimatingRef := True,
             camera := animate (prevCamStateRef v) (camera v),
             focusedNodeRef := None,
             graph := (graph v)\<lparr>vedges := map (\<lambda>e. e\<lparr>hidden := defocusEdgeFlag v e\<rparr>) (vedges (graph v))\<rparr>\<rparr>)"

definition clickStageFlag :: "viewer \<Rightarrow> vedge \<Rightarrow> bool" where
  "clickStageFlag v e =
     (let hideByNew = (showOnlyNewRef v \<and> \<not> isNone (allDBs e));
          hideByC = hideByConf (afmprob e) (confidenceRef v);
          defaultHidden = (if showAllEdgesRef v then False else True)
      in defaultHidden \<or> hideByNew \<or> hideByC)"

subsection \<open>The filter controls\<close>

definition minProb :: "vedge list \<Rightarrow> real" where
  \<comment> \<open>The least score of the dataset, computed at load from \<open>Infinity\<close> (here \<open>None\<close>) and
      set to 0 when there is no score; the slider starts there when \<open>confidenceRef\<close> is 0.\<close>
  "minProb es =
     (case foldl (\<lambda>m e. case afmprob e of
                          None \<Rightarrow> m
                        | Some ap \<Rightarrow>
                            (case m of None \<Rightarrow> Some ap | Some x \<Rightarrow> if ap < x then Some ap else Some x))
             None es of
        None \<Rightarrow> 0
      | Some x \<Rightarrow> x)"

definition degreeTotalsEdgeStep :: "string set \<Rightarrow> bool \<Rightarrow> nat \<times> nat \<Rightarrow> vedge \<Rightarrow> nat \<times> nat" where
  \<comment> \<open>The edge loop of the totals in the effect on \<open>[degreeThreshold]\<close>: it has no test of
      the score.\<close>
  "degreeTotalsEdgeStep visibleNodes onlyNew acc e =
     (if source e \<notin> visibleNodes \<or> target e \<notin> visibleNodes then acc
      else if onlyNew \<and> \<not> isNone (allDBs e) then acc
      else (fst acc + 1, if isNone (allDBs e) then snd acc + 1 else snd acc))"

definition degreeEffect :: "viewer \<Rightarrow> viewer" where
  \<comment> \<open>The effect on \<open>[degreeThreshold]\<close>, after a render with a new \<open>degreeThreshold\<close>.\<close>
  "degreeEffect v =
     (let v1 = v\<lparr>degreeThresholdRef := degreeThreshold v\<rparr>;
          nv = visibleNodesOf (graph v1) (degreeThresholdRef v1) (showOnlyNewRef v1) (nodesBlueSetRef v1);
          ec = foldl (degreeTotalsEdgeStep (snd nv) (showOnlyNewRef v1)) (0, 0) (vedges (graph v1))
      in v1\<lparr>totals := \<lparr>tnodes = fst nv, tedges = fst ec, tblueEdges = snd ec\<rparr>\<rparr>)"

definition showOnlyNewEffect :: "viewer \<Rightarrow> viewer" where
  \<comment> \<open>The effect on \<open>[showOnlyNew]\<close>: its totals are computed by the two loops of
      \<open>recomputeTotalsImmediate\<close>, with \<open>conf = confidenceRef.current\<close>.\<close>
  "showOnlyNewEffect v =
     (let v1 = v\<lparr>showOnlyNewRef := showOnlyNew v\<rparr>
      in v1\<lparr>totals := recomputeTotalsImmediate (graph v1) (degreeThresholdRef v1) (showOnlyNewRef v1)
                          (confidenceRef v1) (nodesBlueSetRef v1)\<rparr>)"

definition focusNeighborStep ::
  "string \<Rightarrow> string set \<Rightarrow> bool \<Rightarrow> real \<Rightarrow> string set \<Rightarrow> vedge \<Rightarrow> string set" where
  \<comment> \<open>The neighbour loop of the effect on \<open>[confidence]\<close>.\<close>
  "focusNeighborStep focused visibleNodes onlyNew conf neighbors e =
     (if \<not> (source e = focused \<or> target e = focused) then neighbors
      else
        let other = (if source e = focused then target e else source e)
        in if other \<notin> visibleNodes then neighbors
           else if onlyNew \<and> \<not> isNone (allDBs e) then neighbors
           else if hideByConf (afmprob e) conf then neighbors
           else insert (target e) (insert (source e) neighbors))"

definition focusEdgeFlag :: "string set \<Rightarrow> bool \<Rightarrow> real \<Rightarrow> vedge \<Rightarrow> bool" where
  \<comment> \<open>The edge loop of the effect on \<open>[confidence]\<close>: the new value of \<open>hidden\<close>.\<close>
  "focusEdgeFlag neighbors onlyNew conf e =
     (let vis = (source e \<in> neighbors \<and> target e \<in> neighbors);
          hideByNewEdge = (onlyNew \<and> \<not> isNone (allDBs e));
          hideByC = hideByConf (afmprob e) conf
      in \<not> vis \<or> hideByNewEdge \<or> hideByC)"

definition confidenceEffect :: "real \<Rightarrow> viewer \<Rightarrow> viewer" where
  \<comment> \<open>The effect on \<open>[confidence]\<close>; \<open>conf\<close> is the \<open>confidence\<close> of the render. It writes
      flags only while a node is focused, and it does not set the totals.\<close>
  "confidenceEffect conf v =
     (case focusedNodeRef v of
        None \<Rightarrow> v
      | Some focused \<Rightarrow>
          if focused = [] then v
          else
            let thr = degreeThresholdRef v;
                onlyNew = showOnlyNewRef v;
                visibleNodes = snd (visibleNodesOf (graph v) thr onlyNew (nodesBlueSetRef v));
                neighbors = foldl (focusNeighborStep focused visibleNodes onlyNew conf)
                              {focused} (vedges (graph v))
            in v\<lparr>graph := (graph v)\<lparr>vedges :=
                  map (\<lambda>e. e\<lparr>hidden := focusEdgeFlag neighbors onlyNew conf e\<rparr>)
                    (vedges (graph v))\<rparr>\<rparr>)"

text \<open>
  The handlers of the four controls, each followed by the render and the effects whose
  dependencies changed, in the order of their declaration. A handler that sets a state to
  the value it has causes no render. The writes to node attributes and to \<open>focusedInfo\<close> are
  left out.
\<close>

definition onConfidenceChange :: "real \<Rightarrow> viewer \<Rightarrow> viewer" where
  \<comment> \<open>\<open>setConfidence(v); confidenceRef.current = v; recomputeTotalsImmediate()\<close>: the
      call reads the \<open>confidence\<close> of the render that created the handler.\<close>
  "onConfidenceChange x v =
     (let v1 = v\<lparr>confidenceRef := x\<rparr>;
          v2 = v1\<lparr>totals := recomputeTotalsImmediate (graph v1) (degreeThresholdRef v1)
                             (showOnlyNewRef v1) (confidence v) (nodesBlueSetRef v1)\<rparr>
      in if x = confidence v then v2
         else confidenceEffect x (showAllEdgesEffect (showAllEdges v2) x (v2\<lparr>confidence := x\<rparr>)))"

definition onDegreeChange :: "int \<Rightarrow> viewer \<Rightarrow> viewer" where
  \<comment> \<open>\<open>setDegreeThreshold(v); recomputeTotalsImmediate()\<close>, then the effect on
      \<open>[degreeThreshold]\<close>.\<close>
  "onDegreeChange x v =
     (let v1 = v\<lparr>totals := recomputeTotalsImmediate (graph v) (degreeThresholdRef v)
                            (showOnlyNewRef v) (confidence v) (nodesBlueSetRef v)\<rparr>
      in if x = degreeThreshold v then v1
         else degreeEffect (v1\<lparr>degreeThreshold := x\<rparr>))"

definition onShowOnlyNewChange :: "bool \<Rightarrow> viewer \<Rightarrow> viewer" where
  \<comment> \<open>\<open>setShowOnlyNew(checked)\<close>: the effect on \<open>[showAllEdges, confidence, showOnlyNew]\<close>
      runs before the effect that copies the state to \<open>showOnlyNewRef\<close>.\<close>
  "onShowOnlyNewChange x v =
     (if x = showOnlyNew v then v
      else showOnlyNewEffect
             (showAllEdgesEffect (showAllEdges v) (confidence v) (v\<lparr>showOnlyNew := x\<rparr>)))"

definition onShowAllEdgesChange :: "bool \<Rightarrow> viewer \<Rightarrow> viewer" where
  \<comment> \<open>\<open>setShowAllEdges(checked)\<close>: the effect that copies the state to \<open>showAllEdgesRef\<close>,
      then the effect on \<open>[showAllEdges, confidence, showOnlyNew]\<close>.\<close>
  "onShowAllEdgesChange x v =
     (if x = showAllEdges v then v
      else showAllEdgesEffect x (confidence v) (v\<lparr>showAllEdges := x, showAllEdgesRef := x\<rparr>))"

subsection \<open>Events\<close>

text \<open>
  An event is paired with the time \<open>performance.now()\<close> at which it is handled. A click on
  the stage that hits the label of a node is \<open>ClickLabel\<close>, any other click on the stage is
  \<open>ClickStage\<close>; \<open>FocusById\<close> is the choice of a search result; \<open>AnimationTimer\<close> is the
  520 ms timer that ends a camera animation; \<open>CameraMoved\<close> is any other change of the
  camera (the user's pan and zoom, the clamp of the camera listener).
\<close>

datatype event =
    ClickNode string
  | ClickStage
  | ClickLabel string
  | FocusById string
  | EnterNode string
  | LeaveNode
  | DefocusTimer
  | AnimationTimer
  | CameraMoved camState
  | ConfidenceInput real
  | DegreeInput int
  | ShowOnlyNewInput bool
  | ShowAllEdgesInput bool

fun step :: "(string \<Rightarrow> camState \<Rightarrow> camState) \<Rightarrow> viewer \<Rightarrow> real \<times> event \<Rightarrow> viewer" where
  "step ft v (now, ClickNode n) = setHovered ft now (Some n) (v\<lparr>defocusTimerRef := False\<rparr>)"
| "step ft v (now, ClickStage) =
     setHovered ft now None
       (v\<lparr>graph := (graph v)\<lparr>vedges := map (\<lambda>e. e\<lparr>hidden := clickStageFlag v e\<rparr>) (vedges (graph v))\<rparr>\<rparr>)"
| "step ft v (now, ClickLabel n) = setHovered ft now (Some n) v"
| "step ft v (now, FocusById n) = setHovered ft now (Some n) v"
| "step ft v (now, EnterNode n) = previewHover now (Some n) v"
| "step ft v (now, LeaveNode) = previewHover now None v"
| "step ft v (now, DefocusTimer) = defocusTimerFires v"
| "step ft v (now, AnimationTimer) = v\<lparr>isAnimatingRef := False\<rparr>"
| "step ft v (now, CameraMoved c) = v\<lparr>camera := c\<rparr>"
| "step ft v (now, ConfidenceInput x) = onConfidenceChange x v"
| "step ft v (now, DegreeInput x) = onDegreeChange x v"
| "step ft v (now, ShowOnlyNewInput x) = onShowOnlyNewChange x v"
| "step ft v (now, ShowAllEdgesInput x) = onShowAllEdgesChange x v"

definition nodeVisible :: "vgraph \<Rightarrow> int \<Rightarrow> bool \<Rightarrow> string set \<Rightarrow> string \<Rightarrow> bool" where
  \<comment> \<open>Membership in the set \<open>visibleNodes\<close> that \<open>recomputeTotalsImmediate\<close> builds.\<close>
  "nodeVisible g thr onlyNew blue s = (s \<in> snd (visibleNodesOf g thr onlyNew blue))"

section \<open>The canvas fallback\<close>

text \<open>
  The renderer that replaces Sigma when its initialisation fails: the nodes of the dataset,
  the view \<open>viewRef\<close> (the camera of this renderer), the highlighted node \<open>hovered\<close> and the
  size of the canvas. What only the drawing reads (size, degree, name) is left out. An
  animation is taken at its last tick, not cancelled by the wheel or a pan.
\<close>

record fnode =
  fid :: string
  fx :: real
  fy :: real

record view =
  scale :: real
  tx :: real
  ty :: real

record canvas =
  cnodes :: "fnode list"
  viewRef :: view
  hovered :: "string option"
  rectWidth :: real
  rectHeight :: real

definition least :: "real list \<Rightarrow> real option" where
  \<comment> \<open>\<open>let minX = Infinity; for (...) if (x < minX) minX = x\<close>; \<open>None\<close> is \<open>Infinity\<close>.\<close>
  "least xs = foldl (\<lambda>m x. case m of None \<Rightarrow> Some x | Some y \<Rightarrow> if x < y then Some x else Some y) None xs"

definition greatest :: "real list \<Rightarrow> real option" where
  \<comment> \<open>\<open>let maxX = -Infinity; for (...) if (x > maxX) maxX = x\<close>; \<open>None\<close> is \<open>-Infinity\<close>.\<close>
  "greatest xs = foldl (\<lambda>m x. case m of None \<Rightarrow> Some x | Some y \<Rightarrow> if x > y then Some x else Some y) None xs"

definition orOneR :: "real \<Rightarrow> real" where
  \<comment> \<open>\<open>d || 1\<close>\<close>
  "orOneR d = (if d = 0 then 1 else d)"

definition computeFit :: "canvas \<Rightarrow> canvas" where
  \<comment> \<open>The view that shows all nodes. Without nodes the source computes with infinities;
      the view is then left as it is.\<close>
  "computeFit c =
     (case (least (map fx (cnodes c)), least (map fy (cnodes c)),
            greatest (map fx (cnodes c)), greatest (map fy (cnodes c))) of
        (Some minX, Some minY, Some maxX, Some maxY) \<Rightarrow>
          let width = rectWidth c;
              height = rectHeight c;
              dx = orOneR (maxX - minX);
              dy = orOneR (maxY - minY);
              padding = 20;
              sx = (width - 2 * padding) / dx;
              sy = (height - 2 * padding) / dy;
              sc = min sx sy;
              x0 = padding - minX * sc + (width - (dx * sc + 2 * padding)) / 2;
              y0 = padding - minY * sc + (height - (dy * sc + 2 * padding)) / 2
          in c\<lparr>viewRef := \<lparr>scale = sc, tx = x0, ty = y0\<rparr>\<rparr>
      | _ \<Rightarrow> c)"

definition screenToWorld :: "view \<Rightarrow> real \<times> real \<Rightarrow> real \<times> real" where
  "screenToWorld vw p = ((fst p - tx vw) / scale vw, (snd p - ty vw) / scale vw)"

definition nearest :: "fnode list \<Rightarrow> real \<times> real \<Rightarrow> (string \<times> real) option" where
  \<comment> \<open>The loop that keeps in \<open>best\<close> the first node at the least squared distance.\<close>
  "nearest ns world =
     foldl (\<lambda>best n.
              let dx = fx n - fst world;
                  dy = fy n - snd world;
                  d2 = dx * dx + dy * dy
              in case best of
                   None \<Rightarrow> Some (fid n, d2)
                 | Some b \<Rightarrow> if d2 < snd b then Some (fid n, d2) else best)
       None ns"

definition nodeAt :: "fnode list \<Rightarrow> string \<Rightarrow> fnode option" where
  \<comment> \<open>\<open>nodes[idToIndexRef.current[id]]\<close>: the last node with the id.\<close>
  "nodeAt ns ident = (case filter (\<lambda>n. fid n = ident) ns of [] \<Rightarrow> None | x # xs \<Rightarrow> Some (last (x # xs)))"

definition clamp :: "real \<Rightarrow> real \<Rightarrow> real \<Rightarrow> real" where
  "clamp x a b = max a (min b x)"

definition animateTo :: "real \<times> real \<Rightarrow> real \<Rightarrow> canvas \<Rightarrow> canvas" where
  \<comment> \<open>The view after the last tick (\<open>ease = 1\<close>): the target scale, and the target centre
      at the centre of the canvas.\<close>
  "animateTo targetCenter targetScale c =
     c\<lparr>viewRef := \<lparr>scale = targetScale,
                      tx = rectWidth c / 2 - fst targetCenter * targetScale,
                      ty = rectHeight c / 2 - snd targetCenter * targetScale\<rparr>\<rparr>"

definition onClick :: "real \<times> real \<Rightarrow> canvas \<Rightarrow> canvas" where
  \<comment> \<open>The click handler of the canvas; the argument is the position of the click in the
      canvas. A click away from every node is the "click empty space to defocus".\<close>
  "onClick p c =
     (let world = screenToWorld (viewRef c) p;
          best = nearest (cnodes c) world;
          picked = (case best of
                      None \<Rightarrow> None
                    | Some b \<Rightarrow>
                        if snd b < 49 / (scale (viewRef c) * scale (viewRef c)) then Some (fst b) else None)
      in case (if truthy picked then picked else None) of
           None \<Rightarrow> c\<lparr>hovered := None\<rparr>
         | Some pid \<Rightarrow>
           let c1 = c\<lparr>hovered := Some pid\<rparr>
           in case nodeAt (cnodes c) pid of
                None \<Rightarrow> c1
              | Some center \<Rightarrow>
                  (case (least (map fx (cnodes c)), least (map fy (cnodes c)),
                         greatest (map fx (cnodes c)), greatest (map fy (cnodes c))) of
                     (Some minX, Some minY, Some maxX, Some maxY) \<Rightarrow>
                       let targetScale = min 3 (max (4/10) (scale (viewRef c) * (14/10)));
                           mx = (rectWidth c / targetScale) / 2;
                           my = (rectHeight c / targetScale) / 2;
                           halfW = (maxX - minX) / 2;
                           halfH = (maxY - minY) / 2;
                           cx = (if halfW \<le> 0 \<or> halfH \<le> 0 \<or> mx \<ge> halfW \<or> my \<ge> halfH
                                 then fx center else clamp (fx center) (minX + mx) (maxX - mx));
                           cy = (if halfW \<le> 0 \<or> halfH \<le> 0 \<or> mx \<ge> halfH \<or> my \<ge> halfH
                                 then fy center else clamp (fy center) (minY + my) (maxY - my))
                       in animateTo (cx, cy) targetScale c1
                   | _ \<Rightarrow> c1))"

section \<open>Example inputs\<close>

text \<open>
  The scenario of the specification: rows \<open>p1 p2 dbX 0.9\<close>, \<open>p2 p3 none 0.95\<close> and
  \<open>p1 p3 none 0.2\<close>, as the viewer's graph.
\<close>

definition scenarioGraph :: vgraph where
  "scenarioGraph =
     \<lparr>vnodes = [\<lparr>vid = ''p1'', isCluster = False, vdegree = 2\<rparr>,
                \<lparr>vid = ''p2'', isCluster = False, vdegree = 2\<rparr>,
                \<lparr>vid = ''p3'', isCluster = False, vdegree = 2\<rparr>],
      vedges = [\<lparr>eid = ''p1|p2'', source = ''p1'', target = ''p2'', weight = Num 1, allDBs = ''dbX'',
                 afmprob = Some (9/10), hidden = True\<rparr>,
                \<lparr>eid = ''p2|p3'', source = ''p2'', target = ''p3'', weight = Num 1, allDBs = ''none'',
                 afmprob = Some (95/100), hidden = True\<rparr>,
                \<lparr>eid = ''p1|p3'', source = ''p1'', target = ''p3'', weight = Num 1, allDBs = ''none'',
                 afmprob = Some (2/10), hidden = True\<rparr>]\<rparr>"

definition unscoredEdge :: vedge where
  "unscoredEdge = \<lparr>eid = ''a|b'', source = ''a'', target = ''b'', weight = Num 1, allDBs = ''dbX'',
                    afmprob = None, hidden = True\<rparr>"

text \<open>
  Two proteins of degree 1 joined by one edge without a score, degree floor 5, the
  "show all edges" override on, no node focused.
\<close>

definition lowDegreePair :: viewer where
  "lowDegreePair =
     \<lparr>graph = \<lparr>vnodes = [\<lparr>vid = ''a'', isCluster = False, vdegree = 1\<rparr>,
                         \<lparr>vid = ''b'', isCluster = False, vdegree = 1\<rparr>],
               vedges = [unscoredEdge]\<rparr>,
      adjacencyRef = [''a'' \<mapsto> [''b''], ''b'' \<mapsto> [''a'']],
      camera = \<lparr>camX = 1/2, camY = 1/2, ratio = 1, angle = 0\<rparr>,
      showOnlyNew = False, showAllEdges = True, confidence = 0, degreeThreshold = 5,
      totals = \<lparr>tnodes = 0, tedges = 0, tblueEdges = 0\<rparr>,
      showEdgesRef = True, showAllEdgesRef = True, showOnlyNewRef = False, confidenceRef = 0,
      degreeThresholdRef = 5, nodesBlueSetRef = {}, focusedNodeRef = None, prevCamStateRef = None,
      defocusTimerRef = False, isAnimatingRef = False, suppressCamAnimRef = False,
      lastSetHovered = 0, lastPreviewHover = 0\<rparr>"

definition zoomIn :: "string \<Rightarrow> camState \<Rightarrow> camState" where
  \<comment> \<open>A camera target for the examples: the ratio of the handler, the centre kept.\<close>
  "zoomIn n c = c\<lparr>ratio := max (1/4) (min 1 (ratio c * (65/100)))\<rparr>"

text \<open>
  The scenario as the viewer holds it once it is loaded: the slider starts at the least
  score of the dataset (0.2), the other controls at their defaults, every edge hidden, and
  the totals are the sizes of the dataset.
\<close>

definition scenarioLoaded :: viewer where
  "scenarioLoaded =
     \<lparr>graph = scenarioGraph,
      adjacencyRef = [''p1'' \<mapsto> [''p2'', ''p3''], ''p2'' \<mapsto> [''p1'', ''p3''],
                      ''p3'' \<mapsto> [''p2'', ''p1'']],
      camera = \<lparr>camX = 1/2, camY = 1/2, ratio = 1, angle = 0\<rparr>,
      showOnlyNew = False, showAllEdges = False, confidence = minProb (vedges scenarioGraph),
      degreeThreshold = 0,
      totals = \<lparr>tnodes = 3, tedges = 3, tblueEdges = 2\<rparr>,
      showEdgesRef = True, showAllEdgesRef = False, showOnlyNewRef = False,
      confidenceRef = minProb (vedges scenarioGraph),
      degreeThresholdRef = 0, nodesBlueSetRef = {''p1'', ''p2'', ''p3''}, focusedNodeRef = None,
      prevCamStateRef = None, defocusTimerRef = False, isAnimatingRef = False,
      suppressCamAnimRef = False, lastSetHovered = 0, lastPreviewHover = 0\<rparr>"

text \<open>Two nodes in a canvas of 140 by 140 pixels, with the view that shows both.\<close>

definition twoNodeCanvas :: canvas where
  "twoNodeCanvas =
     computeFit \<lparr>cnodes = [\<lparr>fid = ''a'', fx = 0, fy = 0\<rparr>, \<lparr>fid = ''b'', fx = 100, fy = 100\<rparr>],
                 viewRef = \<lparr>scale = 1, tx = 0, ty = 0\<rparr>, hovered = None,
                 rectWidth = 140, rectHeight = 140\<rparr>"
definition decimal :: "string \<Rightarrow> jsval" where
  \<comment> \<open>\<open>Number\<close> on the strings the examples use: an unsigned decimal with at most one
      digit before and two after the point; anything else is read as \<open>NaN\<close>.\<close>
  "decimal s =
     (let d = (\<lambda>c. map_of (zip ''0123456789'' [0, 1, 2, 3, 4, 5, 6, 7, 8, 9 :: nat]) c)
      in case s of
           [a] \<Rightarrow> (case d a of Some x \<Rightarrow> Num (real x) | None \<Rightarrow> NaN)
         | [a, p, b] \<Rightarrow>
             (case (d a, d b) of
                (Some x, Some y) \<Rightarrow> if p = CHR ''.'' then Num (real x + real y / 10) else NaN
              | _ \<Rightarrow> NaN)
         | [a, p, b, c] \<Rightarrow>
             (case (d a, d b, d c) of
                (Some x, Some y, Some z) \<Rightarrow>
                  if p = CHR ''.'' then Num (real x + real y / 10 + real z / 100) else NaN
              | _ \<Rightarrow> NaN)
         | _ \<Rightarrow> NaN)"

definition defaultArgs :: args where
  \<comment> \<open>The defaults of the command line, with \<open>--weight weight\<close>.\<close>
  "defaultArgs =
     \<lparr>sourceCol = ''protein1'', targetCol = ''protein2'', weightCol = Some ''weight'',
      allDBsCol = ''allDBs'', afmprobCol = ''AFMprob'', locality1Col = ''locality1'',
      locality2Col = ''locality2'', directed = False, limit = None\<rparr>"

definition tabbed :: "string list \<Rightarrow> string" where
  "tabbed cols = concat (map (\<lambda>f. f @ [CHR 0x09]) (butlast cols)) @ last cols"

definition headerLine :: string where
  "headerLine =
     tabbed [''Protein1'', ''Protein2'', ''weight'', ''allDBs'', ''AFMprob'', ''locality1'',
             ''locality2'']"

text \<open>The same pair twice, first from a database, then as a new prediction.\<close>

definition dupTable :: "string list" where
  "dupTable =
     [headerLine,
      tabbed [''A'', ''B'', ''1'', ''dbX'', ''0.9''],
      tabbed [''A'', ''B'', ''1'', ''none'', ''0.9'']]"

text \<open>A new prediction between A and B, a known interaction between B and C.\<close>

definition novelTable :: "string list" where
  "novelTable =
     [headerLine,
      tabbed [''A'', ''B'', ''1'', ''none'', ''0.9''],
      tabbed [''B'', ''C'', ''1'', ''dbX'', ''0.9'']]"

text \<open>Two rows with different endpoint pairs whose keys are the same string.\<close>

definition collisionTable :: "string list" where
  "collisionTable =
     [headerLine,
      tabbed [''x'', ''y|z'', ''1'', ''dbX'', ''0.9''],
      tabbed [''x|y'', ''z'', ''1'', ''dbX'', ''0.9'']]"

text \<open>A table whose columns are not the ones asked for.\<close>

definition noHeaderTable :: "string list" where
  "noHeaderTable =
     [''# interactions'',
      tabbed [''gene_a'', ''gene_b'', ''weight''],
      tabbed [''p1'', ''p2'', ''1''],
      tabbed [''p2'', ''p3'', ''1'']]"

text \<open>A weight that is not a number.\<close>

definition nanRow :: string where
  "nanRow = tabbed [''p1'', ''p2'', ''abc'', ''dbX'', ''0.9'']"

text \<open>
  Protein A is listed with locality L1 in its first row and with L2 in its second; B is
  listed with L2.
\<close>

definition crossTable :: "string list" where
  "crossTable =
     [headerLine,
      tabbed [''A'', ''B'', ''1'', ''dbX'', ''0.9'', ''L1'', ''L2''],
      tabbed [''A'', ''C'', ''1'', ''dbX'', ''0.9'', ''L2'', ''L3'']]"

definition simpleGraph :: ggraph where
  "simpleGraph =
     \<lparr>gnodes = [''0'', ''1'', ''2''],
      gedges = [\<lparr>eid = ''e0'', source = ''0'', target = ''1'', weight = Undefined, allDBs = [],
                 afmprob = None\<rparr>,
                \<lparr>eid = ''e1'', source = ''1'', target = ''2'', weight = Undefined, allDBs = [],
                 afmprob = None\<rparr>]\<rparr>"

section \<open>The reading loop\<close>

lemma isNone_nonempty: "isNone v \<Longrightarrow> v \<noteq> []"
  by (auto simp: isNone_def trim_def toLowerCase_def)

lemma set_foldl_setAdd: "set (foldl (\<lambda>s L. setAdd L s) cur arr) = set cur \<union> set arr"
  by (induction arr arbitrary: cur) (auto simp: setAdd_def)

lemma foldl_setAdd_nonempty: "arr \<noteq> [] \<Longrightarrow> foldl (\<lambda>s L. setAdd L s) cur arr \<noteq> []"
  using set_foldl_setAdd[of cur arr] by (cases arr) (auto simp del: set_foldl_setAdd)

lemma addADB_fields [simp]:
  "nodeSet (addADB i v st) = nodeSet st"
  "edgesRawLoc (addADB i v st) = edgesRawLoc st"
  "proteinToLocs (addADB i v st) = proteinToLocs st"
  "header (addADB i v st) = header st"
  "rowCount (addADB i v st) = rowCount st"
  by (simp_all add: addADB_def Let_def)

lemma addADB_none [simp]:
  "nodeHasNone (addADB i v st) n = (nodeHasNone st n \<or> (n = i \<and> isNone v))"
  using isNone_nonempty[of v] by (auto simp: addADB_def Let_def)

lemma addLocs_fields [simp]:
  "nodeSet (addLocs i arr st) = nodeSet st"
  "edgesRawLoc (addLocs i arr st) = edgesRawLoc st"
  "nodeHasNone (addLocs i arr st) = nodeHasNone st"
  "nodeIdToAllDBs (addLocs i arr st) = nodeIdToAllDBs st"
  "header (addLocs i arr st) = header st"
  "rowCount (addLocs i arr st) = rowCount st"
  by (simp_all add: addLocs_def Let_def)

lemma addLocs_locs:
  "proteinToLocs (addLocs i arr st) n =
     (if arr \<noteq> [] \<and> n = i
      then Some (foldl (\<lambda>s L. setAdd L s) (case proteinToLocs st i of None \<Rightarrow> [] | Some s \<Rightarrow> s) arr)
      else proteinToLocs st n)"
  by (simp add: addLocs_def Let_def)

lemma addLocs_grows:
  "proteinToLocs st n = Some s \<Longrightarrow> \<exists>s'. proteinToLocs (addLocs i arr st) n = Some s' \<and> set s \<subseteq> set s'"
  by (auto simp: addLocs_locs set_foldl_setAdd)

lemma addLocs_holds:
  "arr \<noteq> [] \<Longrightarrow> \<exists>s'. proteinToLocs (addLocs i arr st) i = Some s' \<and> set arr \<subseteq> set s'"
  by (auto simp: addLocs_locs set_foldl_setAdd)

lemma addLocs_good:
  assumes "\<forall>n s. proteinToLocs st n = Some s \<longrightarrow> s \<noteq> [] \<and> [] \<notin> set s" and "[] \<notin> set arr"
  shows "\<forall>n s. proteinToLocs (addLocs i arr st) n = Some s \<longrightarrow> s \<noteq> [] \<and> [] \<notin> set s"
proof (intro allI impI)
  fix n s assume a: "proteinToLocs (addLocs i arr st) n = Some s"
  show "s \<noteq> [] \<and> [] \<notin> set s"
  proof (cases "arr \<noteq> [] \<and> n = i")
    case True
    then have s: "s = foldl (\<lambda>s L. setAdd L s) (case proteinToLocs st i of None \<Rightarrow> [] | Some s \<Rightarrow> s) arr"
      using a by (simp add: addLocs_locs)
    have "[] \<notin> set (case proteinToLocs st i of None \<Rightarrow> [] | Some s \<Rightarrow> s)"
      using assms(1) by (auto split: option.splits)
    then show ?thesis
      using True assms(2) foldl_setAdd_nonempty[of arr] by (simp add: s set_foldl_setAdd)
  next
    case False
    then have "proteinToLocs st n = Some s" using a by (auto simp: addLocs_locs split: if_splits)
    then show ?thesis using assms(1) by blast
  qed
qed

lemma splitLocs_nonempty: "[] \<notin> set (splitLocs s)"
  by (simp add: splitLocs_def)


lemma processRow_cases:
  "processRow num st line = st \<or>
   (\<exists>a b w adb ap l1 l2. [] \<notin> set l1 \<and> [] \<notin> set l2 \<and>
      processRow num st line =
        addLocs b l2 (addLocs a l1 (addADB b adb (addADB a adb
          (st\<lparr>nodeSet := setAdd b (setAdd a (nodeSet st)),
              edgesRawLoc := edgesRawLoc st @
                [\<lparr>rowA = a, rowB = b, rowW = w, rowAdb = adb, rowAp = ap, locs1 = l1, locs2 = l2\<rparr>]\<rparr>)))))"
proof (cases "cell (splitOn isTab line) (sIdx st) = [] \<or> cell (splitOn isTab line) (tIdx st) = []")
  case True
  then show ?thesis by (simp add: processRow_def Let_def)
next
  case False
  define l1 where "l1 = splitLocs (case loc1Idx st of None \<Rightarrow> [] | Some i \<Rightarrow> cell (splitOn isTab line) (Some i))"
  define l2 where "l2 = splitLocs (case loc2Idx st of None \<Rightarrow> [] | Some i \<Rightarrow> cell (splitOn isTab line) (Some i))"
  have "[] \<notin> set l1" "[] \<notin> set l2"
    by (simp_all add: l1_def l2_def splitLocs_nonempty)
  moreover have "\<exists>a b w adb ap. processRow num st line =
        addLocs b l2 (addLocs a l1 (addADB b adb (addADB a adb
          (st\<lparr>nodeSet := setAdd b (setAdd a (nodeSet st)),
              edgesRawLoc := edgesRawLoc st @
                [\<lparr>rowA = a, rowB = b, rowW = w, rowAdb = adb, rowAp = ap, locs1 = l1, locs2 = l2\<rparr>]\<rparr>))))"
    using False unfolding processRow_def Let_def l1_def l2_def by (simp only: if_False) blast
  ultimately show ?thesis by blast
qed

lemma ingestInv_step:
  assumes inv: "ingestInv st" and l1: "[] \<notin> set l1" and l2: "[] \<notin> set l2"
  shows "ingestInv (addLocs b l2 (addLocs a l1 (addADB b adb (addADB a adb
          (st\<lparr>nodeSet := setAdd b (setAdd a (nodeSet st)),
              edgesRawLoc := edgesRawLoc st @
                [\<lparr>rowA = a, rowB = b, rowW = w, rowAdb = adb, rowAp = ap, locs1 = l1, locs2 = l2\<rparr>]\<rparr>)))))"
    (is "ingestInv ?st'")
proof -
  let ?new = "\<lparr>rowA = a, rowB = b, rowW = w, rowAdb = adb, rowAp = ap, locs1 = l1, locs2 = l2\<rparr>"
  let ?st1 = "st\<lparr>nodeSet := setAdd b (setAdd a (nodeSet st)), edgesRawLoc := edgesRawLoc st @ [?new]\<rparr>"
  let ?st2 = "addADB b adb (addADB a adb ?st1)"
  let ?st3 = "addLocs a l1 ?st2"
  have p2: "proteinToLocs ?st2 = proteinToLocs st" by simp
  have good0: "\<forall>n s. proteinToLocs ?st2 n = Some s \<longrightarrow> s \<noteq> [] \<and> [] \<notin> set s"
    using inv by (simp add: ingestInv_def)
  have good1: "\<forall>n s. proteinToLocs ?st3 n = Some s \<longrightarrow> s \<noteq> [] \<and> [] \<notin> set s"
    by (rule addLocs_good[OF good0 l1])
  have good2: "\<forall>n s. proteinToLocs ?st' n = Some s \<longrightarrow> s \<noteq> [] \<and> [] \<notin> set s"
    by (rule addLocs_good[OF good1 l2])
  have grow: "\<And>n s. proteinToLocs st n = Some s \<Longrightarrow> \<exists>s'. proteinToLocs ?st' n = Some s' \<and> set s \<subseteq> set s'"
  proof -
    fix n s assume "proteinToLocs st n = Some s"
    then have "proteinToLocs ?st2 n = Some s" by simp
    from addLocs_grows[OF this, of a l1] obtain s1 where
      s1: "proteinToLocs ?st3 n = Some s1" "set s \<subseteq> set s1" by blast
    from addLocs_grows[OF s1(1), of b l2] obtain s2 where
      "proteinToLocs ?st' n = Some s2" "set s1 \<subseteq> set s2" by blast
    with s1(2) show "\<exists>s'. proteinToLocs ?st' n = Some s' \<and> set s \<subseteq> set s'" by blast
  qed
  have d: "distinct (nodeSet ?st')"
    using inv by (simp add: ingestInv_def setAdd_def)
  have ns: "set (nodeSet ?st') = insert a (insert b (set (nodeSet st)))"
    by (auto simp: setAdd_def)
  have rows: "edgesRawLoc ?st' = edgesRawLoc st @ [?new]" by simp
  have old: "\<forall>r \<in> set (edgesRawLoc st).
          rowA r \<in> set (nodeSet ?st') \<and> rowB r \<in> set (nodeSet ?st') \<and>
          (locs1 r \<noteq> [] \<longrightarrow> (\<exists>s. proteinToLocs ?st' (rowA r) = Some s \<and> set (locs1 r) \<subseteq> set s)) \<and>
          (locs2 r \<noteq> [] \<longrightarrow> (\<exists>s. proteinToLocs ?st' (rowB r) = Some s \<and> set (locs2 r) \<subseteq> set s))"
  proof
    fix r assume r: "r \<in> set (edgesRawLoc st)"
    from inv r have e: "rowA r \<in> set (nodeSet st)" "rowB r \<in> set (nodeSet st)"
      and c1: "locs1 r \<noteq> [] \<longrightarrow> (\<exists>s. proteinToLocs st (rowA r) = Some s \<and> set (locs1 r) \<subseteq> set s)"
      and c2: "locs2 r \<noteq> [] \<longrightarrow> (\<exists>s. proteinToLocs st (rowB r) = Some s \<and> set (locs2 r) \<subseteq> set s)"
      by (auto simp: ingestInv_def)
    have "locs1 r \<noteq> [] \<longrightarrow> (\<exists>s. proteinToLocs ?st' (rowA r) = Some s \<and> set (locs1 r) \<subseteq> set s)"
      using c1 grow by (meson subset_trans)
    moreover have "locs2 r \<noteq> [] \<longrightarrow> (\<exists>s. proteinToLocs ?st' (rowB r) = Some s \<and> set (locs2 r) \<subseteq> set s)"
      using c2 grow by (meson subset_trans)
    ultimately show "rowA r \<in> set (nodeSet ?st') \<and> rowB r \<in> set (nodeSet ?st') \<and>
          (locs1 r \<noteq> [] \<longrightarrow> (\<exists>s. proteinToLocs ?st' (rowA r) = Some s \<and> set (locs1 r) \<subseteq> set s)) \<and>
          (locs2 r \<noteq> [] \<longrightarrow> (\<exists>s. proteinToLocs ?st' (rowB r) = Some s \<and> set (locs2 r) \<subseteq> set s))"
      using e ns by simp
  qed
  have new1: "l1 \<noteq> [] \<longrightarrow> (\<exists>s. proteinToLocs ?st' a = Some s \<and> set l1 \<subseteq> set s)"
  proof
    assume "l1 \<noteq> []"
    from addLocs_holds[OF this, of a ?st2] obtain s1 where
      s1: "proteinToLocs ?st3 a = Some s1" "set l1 \<subseteq> set s1" by blast
    from addLocs_grows[OF s1(1), of b l2] s1(2)
    show "\<exists>s. proteinToLocs ?st' a = Some s \<and> set l1 \<subseteq> set s" by blast
  qed
  have new2: "l2 \<noteq> [] \<longrightarrow> (\<exists>s. proteinToLocs ?st' b = Some s \<and> set l2 \<subseteq> set s)"
    using addLocs_holds[of l2 b ?st3] by blast
  have rowsOk: "\<forall>r \<in> set (edgesRawLoc ?st').
          rowA r \<in> set (nodeSet ?st') \<and> rowB r \<in> set (nodeSet ?st') \<and>
          (locs1 r \<noteq> [] \<longrightarrow> (\<exists>s. proteinToLocs ?st' (rowA r) = Some s \<and> set (locs1 r) \<subseteq> set s)) \<and>
          (locs2 r \<noteq> [] \<longrightarrow> (\<exists>s. proteinToLocs ?st' (rowB r) = Some s \<and> set (locs2 r) \<subseteq> set s))"
    unfolding rows using old new1 new2 ns by auto
  have none: "\<forall>n. nodeHasNone ?st' n = (\<exists>r \<in> set (edgesRawLoc ?st'). touches r n \<and> isNone (rowAdb r))"
    using inv unfolding rows by (auto simp: ingestInv_def touches_def)
  show ?thesis
    unfolding ingestInv_def using d rowsOk none good2 by blast
qed

lemma ingestInv_processRow: "ingestInv st \<Longrightarrow> ingestInv (processRow num st line)"
  using processRow_cases[of num st line] ingestInv_step by (metis (no_types, lifting))

lemma ingestInv_frame:
  "nodeSet st' = nodeSet st \<Longrightarrow> edgesRawLoc st' = edgesRawLoc st \<Longrightarrow> nodeHasNone st' = nodeHasNone st \<Longrightarrow>
   proteinToLocs st' = proteinToLocs st \<Longrightarrow> ingestInv st \<Longrightarrow> ingestInv st'"
  by (simp add: ingestInv_def)

lemma ingestInv_detectHeader: "ingestInv st \<Longrightarrow> ingestInv (detectHeader ar st line)"
  by (rule ingestInv_frame[of _ st]) (simp_all add: detectHeader_def Let_def)

lemma ingestInv_scan: "ingestInv st \<Longrightarrow> ingestInv (scan ar num st ls)"
proof (induction ls arbitrary: st)
  case Nil then show ?case by simp
next
  case (Cons line rest)
  have c: "ingestInv (st\<lparr>rowCount := rowCount st + 1\<rparr>)"
    by (rule ingestInv_frame[OF _ _ _ _ Cons.prems]) simp_all
  show ?case
    using Cons.IH[OF Cons.prems] Cons.IH[OF ingestInv_detectHeader[OF Cons.prems]]
      Cons.IH[OF ingestInv_processRow[OF c]] c
    by (simp add: Let_def)
qed

lemma ingestInv_initial: "ingestInv initial"
  by (simp add: ingestInv_def initial_def)

text \<open>Without a header line the loop reads nothing.\<close>

lemma detectHeader_frame:
  "nodeSet (detectHeader ar st line) = nodeSet st \<and>
   edgesRawLoc (detectHeader ar st line) = edgesRawLoc st \<and>
   header (detectHeader ar st line) = (header st \<or> namesBoth ar line)"
  by (simp add: detectHeader_def namesBoth_def Let_def)

lemma scan_headerless:
  "\<not> header st \<Longrightarrow>
   \<forall>line \<in> set ls. line \<noteq> [] \<and> \<not> startsWith line ''#'' \<longrightarrow> \<not> namesBoth ar line \<Longrightarrow>
   nodeSet (scan ar num st ls) = nodeSet st \<and> edgesRawLoc (scan ar num st ls) = edgesRawLoc st"
proof (induction ls arbitrary: st)
  case Nil
  show ?case by simp
next
  case (Cons line rest)
  have r: "\<forall>line \<in> set rest. line \<noteq> [] \<and> \<not> startsWith line ''#'' \<longrightarrow> \<not> namesBoth ar line"
    using Cons.prems by simp
  show ?case
  proof (cases "line \<noteq> [] \<and> \<not> startsWith line ''#''")
    case True
    then have h: "\<not> header (detectHeader ar st line)"
      using Cons.prems by (simp add: detectHeader_frame)
    show ?thesis
      using Cons.IH[OF h r] Cons.prems(1) True by (simp add: detectHeader_frame)
  next
    case False
    then show ?thesis
      using Cons.IH[OF Cons.prems(1) r] by auto
  qed
qed
section \<open>The assembly loop\<close>

lemma edgeKey_sym: "edgeKey False a b = edgeKey False b a"
  by (auto simp: edgeKey_def)

lemma linked_seen:
  assumes "graphInv dir g seen" "linked dir (gedges g) a b"
  shows "edgeKey dir a b \<in> seen"
proof -
  from assms(2) obtain e where e: "e \<in> set (gedges g)"
    "(source e = a \<and> target e = b) \<or> (\<not> dir \<and> source e = b \<and> target e = a)"
    by (auto simp: linked_def list_ex_iff)
  from assms(1) e(1) have k: "eid e = edgeKey dir (source e) (target e)" "eid e \<in> seen"
    by (auto simp: graphInv_def)
  from e(2) show ?thesis
  proof
    assume "source e = a \<and> target e = b"
    with k show ?thesis by simp
  next
    assume "\<not> dir \<and> source e = b \<and> target e = a"
    with k edgeKey_sym[of a b] show ?thesis by simp
  qed
qed

lemma addEdges_firstRows:
  assumes "graphInv dir g seen"
    and "\<forall>r \<in> set rs. rowA r \<in> set (gnodes g) \<and> rowB r \<in> set (gnodes g)"
  shows "addEdges dir g seen rs = Inr (g\<lparr>gedges := gedges g @ map (rowEdge dir) (firstBy (rowKey dir) seen rs)\<rparr>)"
  using assms
proof (induction rs arbitrary: g seen)
  case Nil
  then show ?case by simp
next
  case (Cons r rs)
  have nodes: "hasNode g (rowA r)" "hasNode g (rowB r)"
    using Cons.prems(2) by (simp_all add: hasNode_def)
  have rest: "\<forall>r \<in> set rs. rowA r \<in> set (gnodes g) \<and> rowB r \<in> set (gnodes g)"
    using Cons.prems(2) by simp
  show ?case
  proof (cases "rowKey dir r \<in> seen")
    case True
    then show ?thesis
      using nodes Cons.IH[OF Cons.prems(1) rest] by (simp add: rowKey_def Let_def)
  next
    case False
    let ?e = "rowEdge dir r"
    let ?g = "g\<lparr>gedges := gedges g @ [?e]\<rparr>"
    have nolink: "\<not> linked dir (gedges g) (rowA r) (rowB r)"
      using linked_seen[OF Cons.prems(1)] False by (auto simp: rowKey_def)
    have nokey: "\<not> list_ex (\<lambda>x. eid x = rowKey dir r) (gedges g)"
    proof
      assume "list_ex (\<lambda>x. eid x = rowKey dir r) (gedges g)"
      then obtain x where "x \<in> set (gedges g)" "eid x = rowKey dir r"
        by (auto simp: list_ex_iff)
      then have "rowKey dir r \<in> eid ` set (gedges g)"
        by force
      with Cons.prems(1) False show False
        by (simp add: graphInv_def)
    qed
    have add: "addEdgeWithKey dir g ?e = Inr ?g"
      using nodes nolink nokey by (simp add: addEdgeWithKey_def rowEdge_def)
    have inv': "graphInv dir ?g (insert (rowKey dir r) seen)"
      using Cons.prems(1) by (auto simp: graphInv_def rowEdge_def rowKey_def)
    have rest': "\<forall>r \<in> set rs. rowA r \<in> set (gnodes ?g) \<and> rowB r \<in> set (gnodes ?g)"
      using rest by simp
    from Cons.IH[OF inv' rest'] add False nodes show ?thesis
      by (simp add: rowKey_def rowEdge_def Let_def)
  qed
qed

lemma buildGraph_ok:
  assumes "ingestInv st"
  shows "buildGraph dir st =
     Inr \<lparr>gnodes = nodeSet st, gedges = map (rowEdge dir) (firstBy (rowKey dir) {} (edgesRawLoc st))\<rparr>"
proof -
  have "graphInv dir \<lparr>gnodes = nodeSet st, gedges = []\<rparr> {}" by (simp add: graphInv_def)
  moreover have "\<forall>r \<in> set (edgesRawLoc st). rowA r \<in> set (gnodes \<lparr>gnodes = nodeSet st, gedges = []\<rparr>)
      \<and> rowB r \<in> set (gnodes \<lparr>gnodes = nodeSet st, gedges = []\<rparr>)"
    using assms by (simp add: ingestInv_def)
  ultimately show ?thesis
    unfolding buildGraph_def by (simp add: addEdges_firstRows)
qed

lemma firstBy_subset: "set (firstBy key seen rs) \<subseteq> set rs"
  by (induction rs arbitrary: seen) auto

lemma firstBy_keys: "key ` set (firstBy key seen rs) = key ` set rs - seen"
  by (induction rs arbitrary: seen) auto

lemma firstBy_distinct: "distinct (map key (firstBy key seen rs))"
proof (induction rs arbitrary: seen)
  case Nil
  show ?case by simp
next
  case (Cons r rs)
  have "key r \<notin> key ` set (firstBy key (insert (key r) seen) rs)"
    by (simp add: firstBy_keys)
  then show ?case
    using Cons.IH by auto
qed

lemma firstBy_first:
  assumes "i < length rs" and "key (rs ! i) \<notin> seen" and "\<forall>j < i. key (rs ! j) \<noteq> key (rs ! i)"
  shows "rs ! i \<in> set (firstBy key seen rs)"
  using assms
proof (induction rs arbitrary: i seen)
  case Nil
  then show ?case by simp
next
  case (Cons r rs)
  show ?case
  proof (cases i)
    case 0
    then show ?thesis
      using Cons.prems by simp
  next
    case (Suc k)
    have k: "k < length rs"
      using Cons.prems(1) Suc by simp
    have ne: "key r \<noteq> key (rs ! k)"
      using Cons.prems(3) Suc by (metis nth_Cons_0 nth_Cons_Suc zero_less_Suc)
    have s: "key (rs ! k) \<notin> insert (key r) seen" "key (rs ! k) \<notin> seen"
      using Cons.prems(2) Suc ne by auto
    have f: "\<forall>j < k. key (rs ! j) \<noteq> key (rs ! k)"
      using Cons.prems(3) Suc by (metis Suc_less_eq nth_Cons_Suc)
    from Cons.IH[OF k s(1) f] Cons.IH[OF k s(2) f] Suc show ?thesis
      by simp
  qed
qed

text \<open>
  Rows that repeat the pair of an earlier row, in either order when the graph is
  undirected, add no edge.
\<close>

lemma firstBy_seen:
  "key ` set rs \<subseteq> seen \<Longrightarrow> firstBy key seen rs = []"
  by (induction rs) auto

lemma firstBy_repeat:
  "key ` set rs' \<subseteq> seen \<union> key ` set rs \<Longrightarrow> firstBy key seen (rs @ rs') = firstBy key seen rs"
proof (induction rs arbitrary: seen)
  case Nil
  then show ?case by (simp add: firstBy_seen)
next
  case (Cons r rs)
  have a: "key ` set rs' \<subseteq> seen \<union> key ` set rs" if "key r \<in> seen"
    using Cons.prems that by auto
  have b: "key ` set rs' \<subseteq> insert (key r) seen \<union> key ` set rs"
    using Cons.prems by auto
  show ?case
    using Cons.IH[OF a] Cons.IH[OF b] by simp
qed

lemma repeated_pairs_add_nothing:
  assumes "\<forall>r' \<in> set rs'. \<exists>r \<in> set rs.
      (rowA r' = rowA r \<and> rowB r' = rowB r) \<or> (\<not> dir \<and> rowA r' = rowB r \<and> rowB r' = rowA r)"
  shows "firstBy (rowKey dir) {} (rs @ rs') = firstBy (rowKey dir) {} rs"
proof (rule firstBy_repeat)
  show "rowKey dir ` set rs' \<subseteq> {} \<union> rowKey dir ` set rs"
  proof
    fix k assume "k \<in> rowKey dir ` set rs'"
    then obtain r' where r': "r' \<in> set rs'" "k = rowKey dir r'" by auto
    with assms obtain r where r: "r \<in> set rs"
      "(rowA r' = rowA r \<and> rowB r' = rowB r) \<or> (\<not> dir \<and> rowA r' = rowB r \<and> rowB r' = rowA r)"
      by blast
    then have "rowKey dir r' = rowKey dir r"
      using edgeKey_sym[of "rowB r" "rowA r"] by (auto simp: rowKey_def)
    with r(1) r'(2) show "k \<in> {} \<union> rowKey dir ` set rs" by auto
  qed
qed

text \<open>
  The key of an edge determines its pair of ends when the separator does not occur in
  the identifiers.
\<close>

lemma split_at_first:
  "c \<notin> set xs \<Longrightarrow> c \<notin> set ys \<Longrightarrow> xs @ c # u = ys @ c # v \<Longrightarrow> xs = ys \<and> u = v"
proof (induction xs arbitrary: ys)
  case Nil
  then show ?case by (cases ys) auto
next
  case (Cons x xs)
  then show ?case by (cases ys) auto
qed

lemma edgeKey_pair:
  assumes "CHR ''|'' \<notin> set a \<union> set b \<union> set a' \<union> set b'"
    and "edgeKey False a b = edgeKey False a' b'"
  shows "(a = a' \<and> b = b') \<or> (a = b' \<and> b = a')"
  using assms by (auto simp: edgeKey_def split: if_splits dest: split_at_first[rotated 2])

lemma edgeKey_ordered:
  assumes "CHR ''-'' \<notin> set a \<union> set a'"
    and "edgeKey True a b = edgeKey True a' b'"
  shows "a = a' \<and> b = b'"
  using assms by (auto simp: edgeKey_def dest: split_at_first[rotated 2])
section \<open>The export\<close>

lemma exportEdge_fields [simp]:
  "eid (exportEdge e) = eid e" "source (exportEdge e) = source e" "target (exportEdge e) = target e"
  "allDBs (exportEdge e) = allDBs e" "afmprob (exportEdge e) = afmprob e"
  by (simp_all add: exportEdge_def)

lemma adjOf_exportEdge [simp]: "adjOf (map exportEdge es) n = adjOf es n"
  by (simp add: adjOf_def o_def cong: if_cong)

lemma adjOf_Cons:
  "adjOf (e # es) n = (if source e = n then [target e] else []) @
                      (if target e = n then [source e] else []) @ adjOf es n"
  by (simp add: adjOf_def)

lemma adjOf_Nil [simp]: "adjOf [] n = []"
  by (simp add: adjOf_def)

lemma adjOf_append: "adjOf (es @ fs) n = adjOf es n @ adjOf fs n"
  by (simp add: adjOf_def)

lemma length_adjOf:
  "length (adjOf es n) = length (filter (\<lambda>e. source e = n) es) + length (filter (\<lambda>e. target e = n) es)"
  by (induction es) (auto simp: adjOf_Cons)

lemma set_adjOf:
  "set (adjOf es a) = {b. \<exists>e \<in> set es. (source e = a \<and> target e = b) \<or> (target e = a \<and> source e = b)}"
  by (induction es) (auto simp: adjOf_Cons)

lemma pushEdges_ok:
  assumes "\<forall>e \<in> set es. adj (source e) \<noteq> None \<and> adj (target e) \<noteq> None"
  shows "pushEdges adj es = Inr (\<lambda>n. map_option (\<lambda>l. l @ adjOf es n) (adj n))"
  using assms
proof (induction es arbitrary: adj)
  case Nil
  have "(\<lambda>n. map_option (\<lambda>l. l) (adj n)) = adj"
    by (simp add: fun_eq_iff option.map_ident)
  then show ?case by simp
next
  case (Cons e es)
  from Cons.prems obtain ls lt where ls: "adj (source e) = Some ls" and lt: "adj (target e) = Some lt"
    by auto
  define adj1 where "adj1 = adj(source e \<mapsto> ls @ [target e])"
  obtain lt1 where lt1: "adj1 (target e) = Some lt1"
    and lt1_eq: "lt1 = (if target e = source e then ls @ [target e] else lt)"
    using lt by (auto simp: adj1_def)
  define adj2 where "adj2 = adj1(target e \<mapsto> lt1 @ [source e])"
  have p1: "push adj (source e) (target e) = Inr adj1"
    using ls by (simp add: push_def adj1_def)
  have p2: "push adj1 (target e) (source e) = Inr adj2"
    using lt1 by (simp add: push_def adj2_def)
  have dom: "\<forall>x \<in> set es. adj2 (source x) \<noteq> None \<and> adj2 (target x) \<noteq> None"
    using Cons.prems by (auto simp: adj2_def adj1_def)
  have eq: "(\<lambda>n. map_option (\<lambda>l. l @ adjOf es n) (adj2 n)) =
            (\<lambda>n. map_option (\<lambda>l. l @ adjOf (e # es) n) (adj n))"
    using ls lt by (auto simp: fun_eq_iff adj2_def adj1_def lt1_eq adjOf_Cons)
  show ?case
    using p1 p2 Cons.IH[OF dom] eq by simp
qed

lemma exportGraph_ok:
  assumes "wellFormed g"
  shows "exportGraph st g =
     Inr \<lparr>nodes = map (exportNode st g) (gnodes g), edges = map exportEdge (gedges g),
          adjacency = (\<lambda>n. if n \<in> set (gnodes g) then Some (adjOf (gedges g) n) else None)\<rparr>"
proof -
  have "\<forall>e \<in> set (gedges g). emptyLists (gnodes g) (source e) \<noteq> None \<and>
           emptyLists (gnodes g) (target e) \<noteq> None"
    using assms by (simp add: wellFormed_def emptyLists_def)
  from pushEdges_ok[OF this]
  have "pushEdges (emptyLists (gnodes g)) (gedges g) =
          Inr (\<lambda>n. if n \<in> set (gnodes g) then Some (adjOf (gedges g) n) else None)"
    by (simp add: emptyLists_def fun_eq_iff)
  then show ?thesis
    by (simp add: exportGraph_def)
qed

lemma export_symmetric:
  assumes "wellFormed g"
  shows "symmetricAdj (\<lambda>n. if n \<in> set (gnodes g) then Some (adjOf (gedges g) n) else None)"
  unfolding symmetricAdj_def
proof (intro allI)
  fix a b
  have "\<And>a b. b \<in> set (adjOf (gedges g) a) \<Longrightarrow> a \<in> set (gnodes g) \<and> b \<in> set (gnodes g) \<and> a \<in> set (adjOf (gedges g) b)"
    using assms by (auto simp: set_adjOf wellFormed_def)
  then show "(\<exists>l. (if a \<in> set (gnodes g) then Some (adjOf (gedges g) a) else None) = Some l \<and> b \<in> set l) =
        (\<exists>l. (if b \<in> set (gnodes g) then Some (adjOf (gedges g) b) else None) = Some l \<and> a \<in> set l)"
    by auto
qed

lemma export_degrees:
  "degreesMatch (map (exportNode st g) (gnodes g))
     (\<lambda>n. if n \<in> set (gnodes g) then Some (adjOf (gedges g) n) else None)"
  by (auto simp: degreesMatch_def exportNode_def graphDegree_def length_adjOf)

lemma built_wellFormed:
  assumes "ingestInv st"
  shows "wellFormed \<lparr>gnodes = nodeSet st, gedges = map (rowEdge dir) (firstBy (rowKey dir) {} (edgesRawLoc st))\<rparr>"
  using assms firstBy_subset[of "rowKey dir" "{}" "edgesRawLoc st"]
  by (auto simp: wellFormed_def ingestInv_def rowEdge_def)

section \<open>The locality view\<close>

lemma instInv_addInstance: "instInv s \<Longrightarrow> instInv (addInstance s p)"
  by (auto simp: instInv_def addInstance_def Let_def fun_eq_iff)

lemma nodeSeenL_addInstance: "nodeSeenL (addInstance s p) = insert (nodeKey (fst p) (snd p)) (nodeSeenL s)"
  by (auto simp: addInstance_def Let_def)

lemma instances_fold:
  "instInv s \<Longrightarrow> instInv (foldl addInstance s ps) \<and>
     nodeSeenL (foldl addInstance s ps) = nodeSeenL s \<union> (\<lambda>p. nodeKey (fst p) (snd p)) ` set ps"
proof (induction ps arbitrary: s)
  case Nil then show ?case by simp
next
  case (Cons p ps)
  from Cons.IH[OF instInv_addInstance[OF Cons.prems], of p] show ?case
    by (auto simp: nodeSeenL_addInstance)
qed

lemma createInstances_inv:
  "instInv (createInstances st) \<and>
   nid ` set (nodesOutL (createInstances st)) = (\<lambda>p. nodeKey (fst p) (snd p)) ` set (instancePairs st)"
proof -
  have "instInv \<lparr>nodesOutL = [], edgesOutL = [], adjacencyL = (\<lambda>_. None),
          nodeSeenL = {}, seenEdgesL = {}\<rparr>"
    by (simp add: instInv_def)
  from instances_fold[OF this, of "instancePairs st"]
  have a: "instInv (createInstances st)"
    and b: "nodeSeenL (createInstances st) = (\<lambda>p. nodeKey (fst p) (snd p)) ` set (instancePairs st)"
    unfolding createInstances_def by simp_all
  from a have "nodeSeenL (createInstances st) = nid ` set (nodesOutL (createInstances st))"
    unfolding instInv_def by blast
  with a b show ?thesis by simp
qed

lemma nodeIndexL_snoc: "nodeIndexL (ns @ [x]) = (nodeIndexL ns)(nid x \<mapsto> length ns)"
  by (simp add: nodeIndexL_def enumerate_append_eq)

lemma nodeIndexL_Nil: "nodeIndexL [] = (\<lambda>_. None)"
  by (simp add: nodeIndexL_def)

lemma nodeIndexL_Some:
  "nodeIndexL ns k = Some i \<Longrightarrow> i < length ns \<and> nid (ns ! i) = k"
proof (induction ns arbitrary: i rule: rev_induct)
  case Nil then show ?case by (simp add: nodeIndexL_Nil)
next
  case (snoc x xs)
  show ?case
  proof (cases "nid x = k")
    case True
    then show ?thesis using snoc.prems by (auto simp: nodeIndexL_snoc nth_append)
  next
    case False
    then have "nodeIndexL xs k = Some i" using snoc.prems by (simp add: nodeIndexL_snoc)
    from snoc.IH[OF this] show ?thesis by (simp add: nth_append)
  qed
qed

lemma nodeIndexL_dom: "k \<in> nid ` set ns \<Longrightarrow> nodeIndexL ns k \<noteq> None"
  by (induction ns rule: rev_induct) (auto simp: nodeIndexL_snoc nodeIndexL_Nil)

lemma map_nid_bump: "map nid (ns[k := (ns ! k)\<lparr>degree := d\<rparr>]) = map nid ns"
  by (cases "k < length ns") (simp_all add: map_update list_update_same_conv list_update_beyond)

lemma adjOf_snoc:
  "adjOf (es @ [e]) n = adjOf es n @ (if source e = n then [target e] else []) @
                      (if target e = n then [source e] else [])"
  by (simp add: adjOf_def)

lemma localityEdge_step:
  assumes inv: "locInv ids s" and d: "distinct ids"
    and ia: "idx (aKeyOf st r) = Some i" and ib: "idx (bKeyOf st r) = Some j"
    and i: "i < length ids" "ids ! i = aKeyOf st r"
    and j: "j < length ids" "ids ! j = bKeyOf st r"
    and fresh: "locKey st r \<notin> seenEdgesL s"
  shows "\<exists>s'. localityEdge st idx s r = Inr s' \<and> locInv ids s' \<and>
           edgesOutL s' = edgesOutL s @ [locEdge st r] \<and> seenEdgesL s' = insert (locKey st r) (seenEdgesL s)"
proof -
  let ?a = "aKeyOf st r" and ?b = "bKeyOf st r"
  let ?ns = "nodesOutL s"
  have len: "length ?ns = length ids" using inv by (auto simp: locInv_def dest: arg_cong[of _ _ length])
  have ain: "?a \<in> set ids" "?b \<in> set ids" using i j by (metis nth_mem)+
  have adj: "adjacencyL s = (\<lambda>n. if n \<in> set ids then Some (adjOf (edgesOutL s) n) else None)"
    using inv by (simp add: locInv_def)
  define adj1 where "adj1 = (adjacencyL s)(?a \<mapsto> adjOf (edgesOutL s) ?a @ [?b])"
  define lb where "lb = (if ?b = ?a then adjOf (edgesOutL s) ?a @ [?b] else adjOf (edgesOutL s) ?b)"
  define adj2 where "adj2 = adj1(?b \<mapsto> lb @ [?a])"
  define ns1 where "ns1 = ?ns[i := (?ns ! i)\<lparr>degree := degree (?ns ! i) + 1\<rparr>]"
  define ns2 where "ns2 = ns1[j := (ns1 ! j)\<lparr>degree := degree (ns1 ! j) + 1\<rparr>]"
  define s' where "s' = s\<lparr>seenEdgesL := insert (locKey st r) (seenEdgesL s),
                          edgesOutL := edgesOutL s @ [locEdge st r],
                          adjacencyL := adj2, nodesOutL := ns2\<rparr>"
  have p1: "push (adjacencyL s) ?a ?b = Inr adj1"
    using ain by (simp add: push_def adj adj1_def)
  have p2: "push adj1 ?b ?a = Inr adj2"
    using ain by (simp add: push_def adj adj1_def adj2_def lb_def)
  have b1: "bump (Some i) ?ns = Inr ns1"
    using i len by (simp add: bump_def ns1_def)
  have b2: "bump (Some j) ns1 = Inr ns2"
    using j len by (simp add: bump_def ns2_def ns1_def)
  have fresh': "edgeIdL ?a ?b \<notin> seenEdgesL s"
    using fresh by (simp add: locKey_def)
  have run: "localityEdge st idx s r = Inr s'"
    unfolding localityEdge_def Let_def
    by (simp only: ia ib fresh' p1 p2 b1 b2 s'_def locKey_def locEdge_def
        option.simps sum.case if_False simp_thms)
  have ids': "map nid ns2 = ids"
    using inv by (simp add: ns2_def ns1_def map_nid_bump locInv_def)
  have adj': "adj2 = (\<lambda>n. if n \<in> set ids then Some (adjOf (edgesOutL s @ [locEdge st r]) n) else None)"
    using ain by (auto simp: fun_eq_iff adj2_def adj1_def lb_def adj adjOf_snoc locEdge_def)
  have ends: "\<forall>e \<in> set (edgesOutL s @ [locEdge st r]). source e \<in> set ids \<and> target e \<in> set ids"
    using inv ain by (auto simp: locInv_def locEdge_def)
  have deg: "\<forall>m < length ids. degree (ns2 ! m) = length (adjOf (edgesOutL s @ [locEdge st r]) (ids ! m))"
  proof (intro allI impI)
    fix m assume m: "m < length ids"
    have old: "degree (?ns ! m) = length (adjOf (edgesOutL s) (ids ! m))"
      using inv m by (simp add: locInv_def)
    have ei: "(?a = ids ! m) = (m = i)"
      using d m i by (metis nth_eq_iff_index_eq)
    have ej: "(?b = ids ! m) = (m = j)"
      using d m j by (metis nth_eq_iff_index_eq)
    have dg: "degree (ns2 ! m) = degree (?ns ! m) + (if m = i then 1 else 0) + (if m = j then 1 else 0)"
      using m i j len by (auto simp: ns2_def ns1_def nth_list_update)
    have "length (adjOf (edgesOutL s @ [locEdge st r]) (ids ! m)) =
            length (adjOf (edgesOutL s) (ids ! m)) + (if m = i then 1 else 0) + (if m = j then 1 else 0)"
      by (simp add: adjOf_snoc locEdge_def ei ej)
    then show "degree (ns2 ! m) = length (adjOf (edgesOutL s @ [locEdge st r]) (ids ! m))"
      using old dg by simp
  qed
  have seen: "insert (locKey st r) (seenEdgesL s) = eid ` set (edgesOutL s @ [locEdge st r])"
    using inv by (auto simp: locInv_def locEdge_def)
  have fs: "nodesOutL s' = ns2" "edgesOutL s' = edgesOutL s @ [locEdge st r]"
    "adjacencyL s' = adj2" "seenEdgesL s' = insert (locKey st r) (seenEdgesL s)"
    by (simp_all add: s'_def)
  have "locInv ids s'"
    unfolding locInv_def fs using ids' adj' ends deg seen by blast
  then show ?thesis
    using run fs by blast
qed

lemma localityEdges_ok:
  assumes "locInv ids s" and "distinct ids"
    and "\<And>k i. idx k = Some i \<Longrightarrow> i < length ids \<and> ids ! i = k"
    and "\<forall>r \<in> set rs. idx (aKeyOf st r) \<noteq> None \<and> idx (bKeyOf st r) \<noteq> None"
  shows "\<exists>s'. localityEdges st idx s rs = Inr s' \<and> locInv ids s' \<and>
           edgesOutL s' = edgesOutL s @ map (locEdge st) (firstBy (locKey st) (seenEdgesL s) rs)"
  using assms(1,4)
proof (induction rs arbitrary: s)
  case Nil
  then show ?case by simp
next
  case (Cons r rs)
  from Cons.prems(2) obtain i j where ia: "idx (aKeyOf st r) = Some i" and ib: "idx (bKeyOf st r) = Some j"
    by auto
  have rest: "\<forall>r \<in> set rs. idx (aKeyOf st r) \<noteq> None \<and> idx (bKeyOf st r) \<noteq> None"
    using Cons.prems(2) by simp
  show ?case
  proof (cases "locKey st r \<in> seenEdgesL s")
    case True
    then have "localityEdge st idx s r = Inr s"
      using ia ib by (simp add: localityEdge_def Let_def locKey_def)
    with Cons.IH[OF Cons.prems(1) rest] True show ?thesis by simp
  next
    case False
    from localityEdge_step[OF Cons.prems(1) assms(2) ia ib _ _ _ _ False] assms(3)[OF ia] assms(3)[OF ib]
    obtain s1 where s1: "localityEdge st idx s r = Inr s1" "locInv ids s1"
      "edgesOutL s1 = edgesOutL s @ [locEdge st r]" "seenEdgesL s1 = insert (locKey st r) (seenEdgesL s)"
      by blast
    from Cons.IH[OF s1(2) rest] obtain s' where
      "localityEdges st idx s1 rs = Inr s'" "locInv ids s'"
      "edgesOutL s' = edgesOutL s1 @ map (locEdge st) (firstBy (locKey st) (seenEdgesL s1) rs)"
      by blast
    with s1 False show ?thesis by simp
  qed
qed

lemma firstOr_mem: "ls \<noteq> [] \<Longrightarrow> [] \<notin> set ls \<Longrightarrow> firstOr ls \<in> set ls"
  by (cases ls) (auto simp: firstOr_def)

lemma usedLocs_mem:
  assumes "as \<noteq> []" "[] \<notin> set as" "bs \<noteq> []" "[] \<notin> set bs"
  shows "fst (usedLocs as bs) \<in> set as \<and> snd (usedLocs as bs) \<in> set bs"
proof (cases "find (\<lambda>la. la \<in> set bs) as")
  case None
  then show ?thesis
    using firstOr_mem[OF assms(1,2)] firstOr_mem[OF assms(3,4)] by (simp add: usedLocs_def)
next
  case (Some la)
  then have "la \<in> set as \<and> la \<in> set bs"
    by (auto simp: find_Some_iff)
  with Some show ?thesis by (simp add: usedLocs_def)
qed

lemma locsOf_good:
  assumes "ingestInv st"
  shows "locsOf st n \<noteq> [] \<and> [] \<notin> set (locsOf st n)"
  using assms by (auto simp: locsOf_def ingestInv_def split: option.splits)

lemma aLocsOf_good:
  assumes "ingestInv st" "r \<in> set (edgesRawLoc st)"
  shows "aLocsOf st r \<noteq> [] \<and> [] \<notin> set (aLocsOf st r) \<and> set (aLocsOf st r) \<subseteq> set (locsOf st (rowA r))"
proof (cases "locs1 r = []")
  case True
  then show ?thesis using locsOf_good[OF assms(1), of "rowA r"] by (simp add: aLocsOf_def)
next
  case False
  with assms obtain s where s: "proteinToLocs st (rowA r) = Some s" "set (locs1 r) \<subseteq> set s"
    unfolding ingestInv_def by blast
  then have "locsOf st (rowA r) = s" by (simp add: locsOf_def)
  with False s(2) locsOf_good[OF assms(1), of "rowA r"] show ?thesis
    by (auto simp: aLocsOf_def)
qed

lemma bLocsOf_good:
  assumes "ingestInv st" "r \<in> set (edgesRawLoc st)"
  shows "bLocsOf st r \<noteq> [] \<and> [] \<notin> set (bLocsOf st r) \<and> set (bLocsOf st r) \<subseteq> set (locsOf st (rowB r))"
proof (cases "locs2 r = []")
  case True
  then show ?thesis using locsOf_good[OF assms(1), of "rowB r"] by (simp add: bLocsOf_def)
next
  case False
  with assms obtain s where s: "proteinToLocs st (rowB r) = Some s" "set (locs2 r) \<subseteq> set s"
    unfolding ingestInv_def by blast
  then have "locsOf st (rowB r) = s" by (simp add: locsOf_def)
  with False s(2) locsOf_good[OF assms(1), of "rowB r"] show ?thesis
    by (auto simp: bLocsOf_def)
qed

lemma instance_exists:
  assumes "n \<in> set (nodeSet st)" "loc \<in> set (locsOf st n)"
  shows "nodeKey n loc \<in> nid ` set (nodesOutL (createInstances st))"
proof -
  have "(n, loc) \<in> set (instancePairs st)"
    using assms by (auto simp: instancePairs_def)
  then have "nodeKey n loc \<in> (\<lambda>p. nodeKey (fst p) (snd p)) ` set (instancePairs st)"
    by force
  then show ?thesis using createInstances_inv[of st] by simp
qed

lemma row_instances:
  assumes "ingestInv st" "r \<in> set (edgesRawLoc st)"
  shows "aKeyOf st r \<in> nid ` set (nodesOutL (createInstances st)) \<and>
         bKeyOf st r \<in> nid ` set (nodesOutL (createInstances st))"
proof -
  have ab: "rowA r \<in> set (nodeSet st)" "rowB r \<in> set (nodeSet st)"
    using assms by (auto simp: ingestInv_def)
  from aLocsOf_good[OF assms] bLocsOf_good[OF assms]
  have u: "fst (usedLocs (aLocsOf st r) (bLocsOf st r)) \<in> set (locsOf st (rowA r))"
          "snd (usedLocs (aLocsOf st r) (bLocsOf st r)) \<in> set (locsOf st (rowB r))"
    using usedLocs_mem[of "aLocsOf st r" "bLocsOf st r"] by auto
  show ?thesis
    unfolding aKeyOf_def bKeyOf_def
    using instance_exists[OF ab(1) u(1)] instance_exists[OF ab(2) u(2)] by simp
qed

lemma localityView_ok:
  assumes "ingestInv st"
  shows "\<exists>ns. localityView st =
      Inr \<lparr>nodes = ns, edges = map (locEdge st) (firstBy (locKey st) {} (edgesRawLoc st)),
           adjacency = (\<lambda>n. if n \<in> nid ` set ns
                             then Some (adjOf (map (locEdge st) (firstBy (locKey st) {} (edgesRawLoc st))) n)
                             else None)\<rparr> \<and>
      map nid ns = map nid (nodesOutL (createInstances st)) \<and> distinct (map nid ns) \<and>
      (\<forall>m < length ns. degree (ns ! m) =
          length (adjOf (map (locEdge st) (firstBy (locKey st) {} (edgesRawLoc st))) (nid (ns ! m)))) \<and>
      (\<forall>e \<in> set (map (locEdge st) (firstBy (locKey st) {} (edgesRawLoc st))).
          source e \<in> nid ` set ns \<and> target e \<in> nid ` set ns)"
proof -
  define s0 where "s0 = createInstances st"
  define ids where "ids = map nid (nodesOutL s0)"
  define idx where "idx = nodeIndexL (nodesOutL s0)"
  have i0: "instInv s0" using createInstances_inv[of st] by (simp add: s0_def)
  then have d: "distinct ids" by (simp add: instInv_def ids_def)
  have l0: "locInv ids s0"
    using i0 by (auto simp: locInv_def instInv_def ids_def fun_eq_iff)
  have ix: "\<And>k i. idx k = Some i \<Longrightarrow> i < length ids \<and> ids ! i = k"
    using nodeIndexL_Some[of "nodesOutL s0"] by (auto simp: idx_def ids_def)
  have rows: "\<forall>r \<in> set (edgesRawLoc st). idx (aKeyOf st r) \<noteq> None \<and> idx (bKeyOf st r) \<noteq> None"
    using row_instances[OF assms] nodeIndexL_dom[of _ "nodesOutL s0"] by (simp add: idx_def s0_def)
  from localityEdges_ok[OF l0 d ix rows] obtain s' where
    s': "localityEdges st idx s0 (edgesRawLoc st) = Inr s'" "locInv ids s'"
    "edgesOutL s' = edgesOutL s0 @ map (locEdge st) (firstBy (locKey st) (seenEdgesL s0) (edgesRawLoc st))"
    by blast
  have e0: "edgesOutL s0 = []" "seenEdgesL s0 = {}" using i0 by (simp_all add: instInv_def)
  have es: "edgesOutL s' = map (locEdge st) (firstBy (locKey st) {} (edgesRawLoc st))"
    using s'(3) e0 by simp
  have nids: "map nid (nodesOutL s') = ids" using s'(2) by (simp add: locInv_def)
  then have setids: "nid ` set (nodesOutL s') = set ids" by (metis set_map)
  have adj: "adjacencyL s' = (\<lambda>n. if n \<in> nid ` set (nodesOutL s') then Some (adjOf (edgesOutL s') n) else None)"
    using s'(2) setids by (simp add: locInv_def)
  have len: "length (nodesOutL s') = length ids" using nids by (metis length_map)
  have deg: "\<forall>m < length (nodesOutL s'). degree (nodesOutL s' ! m) = length (adjOf (edgesOutL s') (nid (nodesOutL s' ! m)))"
  proof (intro allI impI)
    fix m assume m: "m < length (nodesOutL s')"
    then have "nid (nodesOutL s' ! m) = ids ! m" using nids by (metis nth_map)
    with s'(2) m len show "degree (nodesOutL s' ! m) = length (adjOf (edgesOutL s') (nid (nodesOutL s' ! m)))"
      by (simp add: locInv_def)
  qed
  have v: "localityView st = Inr \<lparr>nodes = nodesOutL s', edges = edgesOutL s', adjacency = adjacencyL s'\<rparr>"
    using s'(1) by (simp add: localityView_def Let_def s0_def idx_def)
  have c1: "localityView st =
      Inr \<lparr>nodes = nodesOutL s', edges = map (locEdge st) (firstBy (locKey st) {} (edgesRawLoc st)),
           adjacency = (\<lambda>n. if n \<in> nid ` set (nodesOutL s')
                             then Some (adjOf (map (locEdge st) (firstBy (locKey st) {} (edgesRawLoc st))) n)
                             else None)\<rparr>"
    using v adj unfolding es by simp
  have c2: "map nid (nodesOutL s') = map nid (nodesOutL (createInstances st))"
    using nids by (simp add: ids_def s0_def)
  have c3: "distinct (map nid (nodesOutL s'))"
    using d nids by simp
  have c4: "\<forall>m < length (nodesOutL s'). degree (nodesOutL s' ! m) =
          length (adjOf (map (locEdge st) (firstBy (locKey st) {} (edgesRawLoc st))) (nid (nodesOutL s' ! m)))"
    using deg unfolding es .
  have c5: "\<forall>e \<in> set (map (locEdge st) (firstBy (locKey st) {} (edgesRawLoc st))).
          source e \<in> nid ` set (nodesOutL s') \<and> target e \<in> nid ` set (nodesOutL s')"
    using s'(2) unfolding locInv_def es setids by blast
  show ?thesis
    by (rule exI[of _ "nodesOutL s'"]) (intro conjI c1 c2 c3 c4 c5)
qed





section \<open>The run\<close>

lemma adj_symmetric:
  assumes "\<forall>e \<in> set es. source e \<in> N \<and> target e \<in> N"
  shows "symmetricAdj (\<lambda>n. if n \<in> N then Some (adjOf es n) else None)"
  unfolding symmetricAdj_def
proof (intro allI)
  fix a b
  have "\<And>a b. b \<in> set (adjOf es a) \<Longrightarrow> a \<in> N \<and> b \<in> N \<and> a \<in> set (adjOf es b)"
    using assms by (auto simp: set_adjOf)
  then show "(\<exists>l. (if a \<in> N then Some (adjOf es a) else None) = Some l \<and> b \<in> set l) =
        (\<exists>l. (if b \<in> N then Some (adjOf es b) else None) = Some l \<and> a \<in> set l)"
    by auto
qed

lemma adj_degrees:
  assumes "\<forall>m < length ns. degree (ns ! m) = length (adjOf es (nid (ns ! m)))"
  shows "degreesMatch ns (\<lambda>n. if n \<in> nid ` set ns then Some (adjOf es n) else None)"
  unfolding degreesMatch_def
proof
  fix n assume "n \<in> set ns"
  then obtain m where "m < length ns" "ns ! m = n" by (auto simp: in_set_conv_nth)
  with assms have "degree n = length (adjOf es (nid n))" by auto
  with \<open>n \<in> set ns\<close>
  show "\<exists>l. (if nid n \<in> nid ` set ns then Some (adjOf es (nid n)) else None) = Some l \<and> degree n = length l"
    by auto
qed

lemma run_ok:
  fixes ar num ls
  defines "st \<equiv> scan ar num initial ls"
  defines "es \<equiv> map (rowEdge (directed ar)) (firstBy (rowKey (directed ar)) {} (edgesRawLoc st))"
  defines "fs \<equiv> map (locEdge st) (firstBy (locKey st) {} (edgesRawLoc st))"
  shows "\<exists>ns. run ar num (Some ls) =
      Wrote \<lparr>nodes = map (exportNode st \<lparr>gnodes = nodeSet st, gedges = es\<rparr>) (nodeSet st),
             edges = map exportEdge es,
             adjacency = (\<lambda>n. if n \<in> set (nodeSet st) then Some (adjOf es n) else None)\<rparr>
            \<lparr>nodes = ns, edges = fs,
             adjacency = (\<lambda>n. if n \<in> nid ` set ns then Some (adjOf fs n) else None)\<rparr> \<and>
      map nid ns = map nid (nodesOutL (createInstances st)) \<and> distinct (map nid ns) \<and>
      (\<forall>m < length ns. degree (ns ! m) = length (adjOf fs (nid (ns ! m)))) \<and>
      (\<forall>e \<in> set fs. source e \<in> nid ` set ns \<and> target e \<in> nid ` set ns)"
proof -
  have inv: "ingestInv st"
    unfolding st_def by (rule ingestInv_scan[OF ingestInv_initial])
  have b: "buildGraph (directed ar) st = Inr \<lparr>gnodes = nodeSet st, gedges = es\<rparr>"
    unfolding es_def by (rule buildGraph_ok[OF inv])
  have w: "wellFormed \<lparr>gnodes = nodeSet st, gedges = es\<rparr>"
    unfolding es_def by (rule built_wellFormed[OF inv])
  have x: "exportGraph st \<lparr>gnodes = nodeSet st, gedges = es\<rparr> =
      Inr \<lparr>nodes = map (exportNode st \<lparr>gnodes = nodeSet st, gedges = es\<rparr>) (nodeSet st),
             edges = map exportEdge es,
           adjacency = (\<lambda>n. if n \<in> set (nodeSet st) then Some (adjOf es n) else None)\<rparr>"
    using exportGraph_ok[OF w, of st] by (simp cong: if_cong)
  from localityView_ok[OF inv] obtain ns where
    l: "localityView st = Inr \<lparr>nodes = ns, edges = fs,
           adjacency = (\<lambda>n. if n \<in> nid ` set ns then Some (adjOf fs n) else None)\<rparr>"
    and r: "map nid ns = map nid (nodesOutL (createInstances st))" "distinct (map nid ns)"
      "\<forall>m < length ns. degree (ns ! m) = length (adjOf fs (nid (ns ! m)))"
      "\<forall>e \<in> set fs. source e \<in> nid ` set ns \<and> target e \<in> nid ` set ns"
    unfolding fs_def by blast
  have "run ar num (Some ls) =
      Wrote \<lparr>nodes = map (exportNode st \<lparr>gnodes = nodeSet st, gedges = es\<rparr>) (nodeSet st),
             edges = map exportEdge es,
             adjacency = (\<lambda>n. if n \<in> set (nodeSet st) then Some (adjOf es n) else None)\<rparr>
            \<lparr>nodes = ns, edges = fs,
             adjacency = (\<lambda>n. if n \<in> nid ` set ns then Some (adjOf fs n) else None)\<rparr>"
    unfolding run_def using b x l by (simp add: st_def Let_def)
  with r show ?thesis by blast
qed

lemma processRow_row:
  assumes "cell (splitOn isTab line) (sIdx st) \<noteq> []" and "cell (splitOn isTab line) (tIdx st) \<noteq> []"
  shows "edgesRawLoc (processRow num st line) = edgesRawLoc st @
     [\<lparr>rowA = cell (splitOn isTab line) (sIdx st), rowB = cell (splitOn isTab line) (tIdx st),
       rowW = (case wIdx st of None \<Rightarrow> Num 1
               | Some i \<Rightarrow> numberCell num (cell (splitOn isTab line) (Some i))),
       rowAdb = (case adbIdx st of None \<Rightarrow> [] | Some i \<Rightarrow> cell (splitOn isTab line) (Some i)),
       rowAp = (case apIdx st of None \<Rightarrow> Undefined
                | Some i \<Rightarrow> numberCell num (cell (splitOn isTab line) (Some i))),
       locs1 = splitLocs (case loc1Idx st of None \<Rightarrow> [] | Some i \<Rightarrow> cell (splitOn isTab line) (Some i)),
       locs2 = splitLocs (case loc2Idx st of None \<Rightarrow> [] | Some i \<Rightarrow> cell (splitOn isTab line) (Some i))\<rparr>]"
  using assms by (simp add: processRow_def Let_def)

lemma first_row_edge:
  fixes ar num ls
  defines "rows \<equiv> edgesRawLoc (scan ar num initial ls)"
  assumes k: "k < length rows"
    and first: "\<forall>j < k. rowKey (directed ar) (rows ! j) \<noteq> rowKey (directed ar) (rows ! k)"
  shows "\<exists>d l. run ar num (Some ls) = Wrote d l \<and>
           exportEdge (rowEdge (directed ar) (rows ! k)) \<in> set (edges d)"
proof -
  have "rows ! k \<in> set (firstBy (rowKey (directed ar)) {} rows)"
    by (rule firstBy_first[OF k _ first]) simp
  then have "exportEdge (rowEdge (directed ar) (rows ! k)) \<in>
      set (map exportEdge (map (rowEdge (directed ar)) (firstBy (rowKey (directed ar)) {} rows)))"
    by simp
  with run_ok[of ar num ls] show ?thesis
    unfolding rows_def by auto
qed

section \<open>Claims about the pipeline\<close>

text \<open>
  C1. Edges are deduplicated by the endpoint pair (unordered when undirected). Rows that
  repeat a pair are indeed dropped (\<open>repeated_pairs_add_nothing\<close>), but the assembly loop
  compares the strings \<open>a|b\<close> (or \<open>a->b\<close>), not the pairs, and two different pairs can
  give the same string: for the rows \<open>(x, y|z)\<close> and \<open>(x|y, z)\<close> the default dataset
  keeps four nodes but only the first edge, while the locality dataset of the same run
  keeps both edges.
\<close>

theorem key_collision_drops_edge:
  "case run defaultArgs decimal (Some collisionTable) of
     Wrote d l \<Rightarrow>
       map nid (nodes d) = [''x'', ''y|z'', ''x|y'', ''z''] \<and>
       map (\<lambda>e. (eid e, source e, target e)) (edges d) = [(''x|y|z'', ''x'', ''y|z'')] \<and>
       map (\<lambda>e. (source e, target e)) (edges l) =
         [(''x@unknown'', ''y|z@unknown''), (''x|y@unknown'', ''z@unknown'')]
   | _ \<Rightarrow> False"
  by code_simp

text \<open>
  C2. A table in which no line yields both a source and a target column is fatal for the
  run. The script has no such check: whenever no line that is read (not empty, not a
  comment) names both columns, the run ends normally and writes both datasets, with no
  nodes and no edges.
\<close>

theorem no_header_writes_empty:
  assumes "\<forall>line \<in> set ls. line \<noteq> [] \<and> \<not> startsWith line ''#'' \<longrightarrow> \<not> namesBoth ar line"
  shows "\<exists>d l. run ar num (Some ls) = Wrote d l \<and>
           nodes d = [] \<and> edges d = [] \<and> nodes l = [] \<and> edges l = []"
proof -
  define st where "st = scan ar num initial ls"
  have "\<not> header initial"
    by (simp add: initial_def)
  from scan_headerless[OF this assms, of num]
  have n: "nodeSet st = []" and e: "edgesRawLoc st = []"
    unfolding st_def by (simp_all add: initial_def)
  have i: "nodesOutL (createInstances st) = []"
    by (simp add: createInstances_def instancePairs_def n)
  from run_ok[of ar num ls] obtain d l where
    r: "run ar num (Some ls) = Wrote d l"
    and d: "nodes d = map (exportNode st \<lparr>gnodes = nodeSet st,
              gedges = map (rowEdge (directed ar)) (firstBy (rowKey (directed ar)) {} (edgesRawLoc st))\<rparr>) (nodeSet st)"
      "edges d = map exportEdge (map (rowEdge (directed ar)) (firstBy (rowKey (directed ar)) {} (edgesRawLoc st)))"
      "edges l = map (locEdge st) (firstBy (locKey st) {} (edgesRawLoc st))"
      "map nid (nodes l) = map nid (nodesOutL (createInstances st))"
    unfolding st_def by auto
  have "nodes d = []" "edges d = []" "nodes l = []" "edges l = []"
    using d by (simp_all add: n e i)
  with r show ?thesis by blast
qed

text \<open>A table whose header names the columns \<open>gene_a\<close> and \<open>gene_b\<close>, with two data rows.\<close>

theorem no_header_writes_empty_witness:
  "filter (\<lambda>line. line \<noteq> [] \<and> \<not> startsWith line ''#'' \<and> namesBoth defaultArgs line)
     noHeaderTable = [] \<and>
   (\<exists>d l. run defaultArgs decimal (Some noHeaderTable) = Wrote d l \<and>
           nodes d = [] \<and> edges d = [] \<and> nodes l = [] \<and> edges l = [])"
proof -
  have f: "filter (\<lambda>line. line \<noteq> [] \<and> \<not> startsWith line ''#'' \<and> namesBoth defaultArgs line)
     noHeaderTable = []"
    by code_simp
  then have h: "\<forall>line \<in> set noHeaderTable.
      line \<noteq> [] \<and> \<not> startsWith line ''#'' \<longrightarrow> \<not> namesBoth defaultArgs line"
    unfolding filter_empty_conv by blast
  from no_header_writes_empty[OF h, of decimal] f show ?thesis
    by blast
qed

text \<open>
  C3, as amended. In the default dataset a node's \<open>hasAllDBsNone\<close> flag is true if and only
  if some ingested row naming the node has the provenance tag "none" (trimmed, in any
  letter case), whether or not the edge of that row survived deduplication; so every node
  incident to an edge tagged "none" has the flag. The nodes of the locality dataset have
  no such field (\<open>lnode\<close>).
\<close>

theorem novelty_flag_rows:
  "\<exists>d l. run ar num (Some ls) = Wrote d l \<and>
     (\<forall>n \<in> set (nodes d). hasAllDBsNone n =
         (\<exists>r \<in> set (edgesRawLoc (scan ar num initial ls)). touches r (nid n) \<and> isNone (rowAdb r))) \<and>
     (\<forall>e \<in> set (edges d). isNone (allDBs e) \<longrightarrow>
         (\<forall>n \<in> set (nodes d). nid n = source e \<or> nid n = target e \<longrightarrow> hasAllDBsNone n))"
proof -
  define st where "st = scan ar num initial ls"
  define es where "es = map (rowEdge (directed ar)) (firstBy (rowKey (directed ar)) {} (edgesRawLoc st))"
  define g where "g = \<lparr>gnodes = nodeSet st, gedges = es\<rparr>"
  have inv: "ingestInv st"
    unfolding st_def by (rule ingestInv_scan[OF ingestInv_initial])
  from run_ok[of ar num ls] obtain d l where
    r: "run ar num (Some ls) = Wrote d l" and n: "nodes d = map (exportNode st g) (nodeSet st)"
    and e: "edges d = map exportEdge es"
    unfolding st_def es_def g_def by auto
  have flag: "\<And>n. n \<in> set (nodes d) \<Longrightarrow>
      hasAllDBsNone n = (\<exists>r \<in> set (edgesRawLoc st). touches r (nid n) \<and> isNone (rowAdb r))"
    using inv unfolding n ingestInv_def by (auto simp: exportNode_def)
  have edge: "\<And>x n. x \<in> set (edges d) \<Longrightarrow> isNone (allDBs x) \<Longrightarrow> n \<in> set (nodes d) \<Longrightarrow>
      nid n = source x \<or> nid n = target x \<Longrightarrow> hasAllDBsNone n"
  proof -
    fix x n assume x: "x \<in> set (edges d)" and none: "isNone (allDBs x)" and nn: "n \<in> set (nodes d)"
      and t: "nid n = source x \<or> nid n = target x"
    from x obtain r where rr: "r \<in> set (firstBy (rowKey (directed ar)) {} (edgesRawLoc st))"
      "x = exportEdge (rowEdge (directed ar) r)"
      unfolding e es_def by auto
    then have "r \<in> set (edgesRawLoc st)" using firstBy_subset by fastforce
    moreover have "touches r (nid n) \<and> isNone (rowAdb r)"
      using rr(2) t none by (auto simp: rowEdge_def touches_def)
    ultimately show "hasAllDBsNone n" using flag[OF nn] by blast
  qed
  show ?thesis
    using r flag edge unfolding st_def by blast
qed

theorem novelty_flag_rows_witness:
  "(\<exists>d l. run defaultArgs decimal (Some novelTable) = Wrote d l \<and>
     (\<forall>n \<in> set (nodes d). hasAllDBsNone n =
         (\<exists>r \<in> set (edgesRawLoc (scan defaultArgs decimal initial novelTable)).
             touches r (nid n) \<and> isNone (rowAdb r))) \<and>
     (\<forall>e \<in> set (edges d). isNone (allDBs e) \<longrightarrow>
         (\<forall>n \<in> set (nodes d). nid n = source e \<or> nid n = target e \<longrightarrow> hasAllDBsNone n))) \<and>
   (case run defaultArgs decimal (Some novelTable) of
      Wrote d l \<Rightarrow>
        map (\<lambda>n. (nid n, hasAllDBsNone n)) (nodes d) = [(''A'', True), (''B'', True), (''C'', False)] \<and>
        map (\<lambda>e. (eid e, allDBs e)) (edges d) = [(''A|B'', ''none''), (''B|C'', ''dbX'')]
    | _ \<Rightarrow> False)"
proof (rule conjI)
  show "\<exists>d l. run defaultArgs decimal (Some novelTable) = Wrote d l \<and>
     (\<forall>n \<in> set (nodes d). hasAllDBsNone n =
         (\<exists>r \<in> set (edgesRawLoc (scan defaultArgs decimal initial novelTable)).
             touches r (nid n) \<and> isNone (rowAdb r))) \<and>
     (\<forall>e \<in> set (edges d). isNone (allDBs e) \<longrightarrow>
         (\<forall>n \<in> set (nodes d). nid n = source e \<or> nid n = target e \<longrightarrow> hasAllDBsNone n))"
    by (rule novelty_flag_rows)
  show "case run defaultArgs decimal (Some novelTable) of
      Wrote d l \<Rightarrow>
        map (\<lambda>n. (nid n, hasAllDBsNone n)) (nodes d) = [(''A'', True), (''B'', True), (''C'', False)] \<and>
        map (\<lambda>e. (eid e, allDBs e)) (edges d) = [(''A|B'', ''none''), (''B|C'', ''dbX'')]
    | _ \<Rightarrow> False"
    by code_simp
qed

text \<open>
  The claim as stated fails: when a pair is listed first with a database tag and then with
  "none", the nodes are flagged although the only edge kept carries the first tag.
\<close>

theorem novelty_flag_counterexample:
  "case run defaultArgs decimal (Some dupTable) of
     Wrote d l \<Rightarrow>
       (\<exists>n \<in> set (nodes d). hasAllDBsNone n \<and>
          \<not> (\<exists>e \<in> set (edges d). (source e = nid n \<or> target e = nid n) \<and> isNone (allDBs e)))
   | _ \<Rightarrow> False"
  by code_simp




text \<open>
  C9. A data row with both endpoint values is kept whatever its weight field holds: when
  the weight column exists and \<open>Number\<close> of the field is \<open>NaN\<close>, the row is appended to
  the raw rows and the edge made from it has weight 1, in the default and in the locality
  dataset; without a weight column the weight is 1 as well. In the dataset written by the
  run, the edge of the first row with a given key whose weight is \<open>NaN\<close> has weight 1.
\<close>

theorem nan_weight_coerced:
  "(cell (splitOn isTab line) (sIdx st) \<noteq> [] \<and> cell (splitOn isTab line) (tIdx st) \<noteq> [] \<and>
      wIdx st = Some i \<and> numberCell toNumber (cell (splitOn isTab line) (Some i)) = NaN \<longrightarrow>
      (\<exists>r. edgesRawLoc (processRow toNumber st line) = edgesRawLoc st @ [r] \<and>
           rowA r = cell (splitOn isTab line) (sIdx st) \<and>
           rowB r = cell (splitOn isTab line) (tIdx st) \<and>
           weight (rowEdge dir r) = Num 1 \<and> weight (locEdge st' r) = Num 1)) \<and>
   (cell (splitOn isTab line) (sIdx st) \<noteq> [] \<and> cell (splitOn isTab line) (tIdx st) \<noteq> [] \<and>
      wIdx st = None \<longrightarrow>
      (\<exists>r. edgesRawLoc (processRow toNumber st line) = edgesRawLoc st @ [r] \<and>
           weight (rowEdge dir r) = Num 1 \<and> weight (locEdge st' r) = Num 1)) \<and>
   (k < length (edgesRawLoc (scan ar toNumber initial ls)) \<and>
      rowW (edgesRawLoc (scan ar toNumber initial ls) ! k) = NaN \<and>
      (\<forall>j < k. rowKey (directed ar) (edgesRawLoc (scan ar toNumber initial ls) ! j)
                 \<noteq> rowKey (directed ar) (edgesRawLoc (scan ar toNumber initial ls) ! k)) \<longrightarrow>
      (\<exists>d l. run ar toNumber (Some ls) = Wrote d l \<and>
          (\<exists>e \<in> set (edges d).
              source e = rowA (edgesRawLoc (scan ar toNumber initial ls) ! k) \<and>
              target e = rowB (edgesRawLoc (scan ar toNumber initial ls) ! k) \<and>
              weight e = Num 1)))"
proof (intro conjI impI)
  assume a: "cell (splitOn isTab line) (sIdx st) \<noteq> [] \<and> cell (splitOn isTab line) (tIdx st) \<noteq> [] \<and>
      wIdx st = Some i \<and> numberCell toNumber (cell (splitOn isTab line) (Some i)) = NaN"
  then show "\<exists>r. edgesRawLoc (processRow toNumber st line) = edgesRawLoc st @ [r] \<and>
           rowA r = cell (splitOn isTab line) (sIdx st) \<and>
           rowB r = cell (splitOn isTab line) (tIdx st) \<and>
           weight (rowEdge dir r) = Num 1 \<and> weight (locEdge st' r) = Num 1"
    using processRow_row[of line st toNumber]
    by (simp add: rowEdge_def locEdge_def coerceWeight_def orOne_def)
next
  assume a: "cell (splitOn isTab line) (sIdx st) \<noteq> [] \<and> cell (splitOn isTab line) (tIdx st) \<noteq> [] \<and>
      wIdx st = None"
  then show "\<exists>r. edgesRawLoc (processRow toNumber st line) = edgesRawLoc st @ [r] \<and>
           weight (rowEdge dir r) = Num 1 \<and> weight (locEdge st' r) = Num 1"
    using processRow_row[of line st toNumber]
    by (simp add: rowEdge_def locEdge_def coerceWeight_def orOne_def)
next
  let ?rows = "edgesRawLoc (scan ar toNumber initial ls)"
  assume a: "k < length ?rows \<and> rowW (?rows ! k) = NaN \<and>
      (\<forall>j < k. rowKey (directed ar) (?rows ! j) \<noteq> rowKey (directed ar) (?rows ! k))"
  then obtain d l where r: "run ar toNumber (Some ls) = Wrote d l"
    "exportEdge (rowEdge (directed ar) (?rows ! k)) \<in> set (edges d)"
    using first_row_edge[of k ar toNumber ls] by blast
  have "source (exportEdge (rowEdge (directed ar) (?rows ! k))) = rowA (?rows ! k) \<and>
        target (exportEdge (rowEdge (directed ar) (?rows ! k))) = rowB (?rows ! k) \<and>
        weight (exportEdge (rowEdge (directed ar) (?rows ! k))) = Num 1"
    using a by (simp add: rowEdge_def coerceWeight_def exportEdge_def)
  with r show "\<exists>d l. run ar toNumber (Some ls) = Wrote d l \<and>
          (\<exists>e \<in> set (edges d). source e = rowA (?rows ! k) \<and> target e = rowB (?rows ! k) \<and>
              weight e = Num 1)"
    by blast
qed

theorem nan_weight_coerced_witness:
  "cell (splitOn isTab nanRow) (sIdx (detectHeader defaultArgs initial headerLine)) = ''p1'' \<and>
   cell (splitOn isTab nanRow) (tIdx (detectHeader defaultArgs initial headerLine)) = ''p2'' \<and>
   wIdx (detectHeader defaultArgs initial headerLine) = Some 2 \<and>
   numberCell decimal (cell (splitOn isTab nanRow) (Some 2)) = NaN \<and>
   (\<exists>r. edgesRawLoc (processRow decimal (detectHeader defaultArgs initial headerLine) nanRow) =
          edgesRawLoc (detectHeader defaultArgs initial headerLine) @ [r] \<and>
        rowA r = cell (splitOn isTab nanRow) (sIdx (detectHeader defaultArgs initial headerLine)) \<and>
        rowB r = cell (splitOn isTab nanRow) (tIdx (detectHeader defaultArgs initial headerLine)) \<and>
        weight (rowEdge False r) = Num 1 \<and> weight (locEdge initial r) = Num 1) \<and>
   rowW (edgesRawLoc (scan defaultArgs decimal initial [headerLine, nanRow]) ! 0) = NaN \<and>
   (\<exists>d l. run defaultArgs decimal (Some [headerLine, nanRow]) = Wrote d l \<and>
       (\<exists>e \<in> set (edges d).
           source e = rowA (edgesRawLoc (scan defaultArgs decimal initial [headerLine, nanRow]) ! 0) \<and>
           target e = rowB (edgesRawLoc (scan defaultArgs decimal initial [headerLine, nanRow]) ! 0) \<and>
           weight e = Num 1))"
proof -
  have h: "cell (splitOn isTab nanRow) (sIdx (detectHeader defaultArgs initial headerLine)) = ''p1''"
    "cell (splitOn isTab nanRow) (tIdx (detectHeader defaultArgs initial headerLine)) = ''p2''"
    "wIdx (detectHeader defaultArgs initial headerLine) = Some 2"
    "numberCell decimal (cell (splitOn isTab nanRow) (Some 2)) = NaN"
    by code_simp+
  have h': "cell (splitOn isTab nanRow) (sIdx (detectHeader defaultArgs initial headerLine)) \<noteq> []"
    "cell (splitOn isTab nanRow) (tIdx (detectHeader defaultArgs initial headerLine)) \<noteq> []"
    by (simp_all add: h)
  have r: "0 < length (edgesRawLoc (scan defaultArgs decimal initial [headerLine, nanRow]))"
    "rowW (edgesRawLoc (scan defaultArgs decimal initial [headerLine, nanRow]) ! 0) = NaN"
    by code_simp+
  have v: "\<forall>j < (0::nat). rowKey (directed defaultArgs)
              (edgesRawLoc (scan defaultArgs decimal initial [headerLine, nanRow]) ! j)
            \<noteq> rowKey (directed defaultArgs)
              (edgesRawLoc (scan defaultArgs decimal initial [headerLine, nanRow]) ! 0)"
    by simp
  note T = nan_weight_coerced[of nanRow "detectHeader defaultArgs initial headerLine" 2 decimal False
        initial 0 defaultArgs "[headerLine, nanRow]"]
  from T h' h(3,4) have c1:
    "\<exists>r. edgesRawLoc (processRow decimal (detectHeader defaultArgs initial headerLine) nanRow) =
          edgesRawLoc (detectHeader defaultArgs initial headerLine) @ [r] \<and>
        rowA r = cell (splitOn isTab nanRow) (sIdx (detectHeader defaultArgs initial headerLine)) \<and>
        rowB r = cell (splitOn isTab nanRow) (tIdx (detectHeader defaultArgs initial headerLine)) \<and>
        weight (rowEdge False r) = Num 1 \<and> weight (locEdge initial r) = Num 1"
    by blast
  from T r v have c3:
    "\<exists>d l. run defaultArgs decimal (Some [headerLine, nanRow]) = Wrote d l \<and>
       (\<exists>e \<in> set (edges d).
           source e = rowA (edgesRawLoc (scan defaultArgs decimal initial [headerLine, nanRow]) ! 0) \<and>
           target e = rowB (edgesRawLoc (scan defaultArgs decimal initial [headerLine, nanRow]) ! 0) \<and>
           weight e = Num 1)"
    by blast
  show ?thesis
    using h r(2) c1 c3 by blast
qed

text \<open>
  C10. In every generated dataset the adjacency map is symmetric and every node's
  \<open>degree\<close> is the number of entries of its adjacency list: for the export of any graph
  (the export loop is the same in the synthetic generator and in the table pipeline), and for
  the default and the locality dataset that a run writes.
\<close>

theorem adjacency_symmetric_degrees:
  "(wellFormed g \<longrightarrow>
      (\<exists>d. exportGraph st g = Inr d \<and> symmetricAdj (adjacency d) \<and>
           degreesMatch (nodes d) (adjacency d))) \<and>
   (\<exists>d l. run ar num (Some ls) = Wrote d l \<and>
      symmetricAdj (adjacency d) \<and> degreesMatch (nodes d) (adjacency d) \<and>
      symmetricAdj (adjacency l) \<and> degreesMatch (nodes l) (adjacency l))"
proof (intro conjI impI)
  assume w: "wellFormed g"
  show "\<exists>d. exportGraph st g = Inr d \<and> symmetricAdj (adjacency d) \<and> degreesMatch (nodes d) (adjacency d)"
    using exportGraph_ok[OF w, of st] export_symmetric[OF w] export_degrees[of st g] by simp
next
  define s where "s = scan ar num initial ls"
  define es where "es = map (rowEdge (directed ar)) (firstBy (rowKey (directed ar)) {} (edgesRawLoc s))"
  define fs where "fs = map (locEdge s) (firstBy (locKey s) {} (edgesRawLoc s))"
  define g' where "g' = \<lparr>gnodes = nodeSet s, gedges = es\<rparr>"
  have inv: "ingestInv s"
    unfolding s_def by (rule ingestInv_scan[OF ingestInv_initial])
  have w: "wellFormed g'"
    unfolding g'_def es_def by (rule built_wellFormed[OF inv])
  from run_ok[of ar num ls] obtain ns where
    r: "run ar num (Some ls) =
      Wrote \<lparr>nodes = map (exportNode s g') (nodeSet s), edges = map exportEdge es,
             adjacency = (\<lambda>n. if n \<in> set (nodeSet s) then Some (adjOf es n) else None)\<rparr>
            \<lparr>nodes = ns, edges = fs,
             adjacency = (\<lambda>n. if n \<in> nid ` set ns then Some (adjOf fs n) else None)\<rparr>"
    and d: "\<forall>m < length ns. degree (ns ! m) = length (adjOf fs (nid (ns ! m)))"
    and e: "\<forall>e \<in> set fs. source e \<in> nid ` set ns \<and> target e \<in> nid ` set ns"
    unfolding s_def es_def fs_def g'_def by blast
  have g: "gnodes g' = nodeSet s" "gedges g' = es"
    by (simp_all add: g'_def)
  show "\<exists>d l. run ar num (Some ls) = Wrote d l \<and>
      symmetricAdj (adjacency d) \<and> degreesMatch (nodes d) (adjacency d) \<and>
      symmetricAdj (adjacency l) \<and> degreesMatch (nodes l) (adjacency l)"
    using r export_symmetric[OF w] export_degrees[of s g'] adj_symmetric[OF e] adj_degrees[OF d]
    unfolding g by simp
qed

theorem adjacency_symmetric_degrees_witness:
  "wellFormed simpleGraph \<and>
   (\<exists>d. exportGraph initial simpleGraph = Inr d \<and> symmetricAdj (adjacency d) \<and>
        degreesMatch (nodes d) (adjacency d)) \<and>
   (\<exists>d l. run defaultArgs decimal (Some crossTable) = Wrote d l \<and>
      symmetricAdj (adjacency d) \<and> degreesMatch (nodes d) (adjacency d) \<and>
      symmetricAdj (adjacency l) \<and> degreesMatch (nodes l) (adjacency l)) \<and>
   (case run defaultArgs decimal (Some crossTable) of
      Wrote d l \<Rightarrow>
        map (\<lambda>n. (nid n, degree n, adjacency d (nid n))) (nodes d) =
          [(''A'', 2, Some [''B'', ''C'']), (''B'', 1, Some [''A'']), (''C'', 1, Some [''A''])] \<and>
        map (\<lambda>n. (nid n, degree n, adjacency l (nid n))) (nodes l) =
          [(''A@L1'', 1, Some [''B@L2'']), (''A@L2'', 1, Some [''C@L3'']),
           (''B@L2'', 1, Some [''A@L1'']), (''C@L3'', 1, Some [''A@L2''])]
    | _ \<Rightarrow> False)"
proof -
  have w: "wellFormed simpleGraph"
    by (simp add: wellFormed_def simpleGraph_def)
  have v: "case run defaultArgs decimal (Some crossTable) of
      Wrote d l \<Rightarrow>
        map (\<lambda>n. (nid n, degree n, adjacency d (nid n))) (nodes d) =
          [(''A'', 2, Some [''B'', ''C'']), (''B'', 1, Some [''A'']), (''C'', 1, Some [''A''])] \<and>
        map (\<lambda>n. (nid n, degree n, adjacency l (nid n))) (nodes l) =
          [(''A@L1'', 1, Some [''B@L2'']), (''A@L2'', 1, Some [''C@L3'']),
           (''B@L2'', 1, Some [''A@L1'']), (''C@L3'', 1, Some [''A@L2''])]
    | _ \<Rightarrow> False"
    by code_simp
  show ?thesis
    using w v adjacency_symmetric_degrees[of simpleGraph initial defaultArgs decimal crossTable]
    by blast
qed

section \<open>The filter engine\<close>

lemma nodes_fold:
  "foldl (totalsNodeStep thr onlyNew blue) acc ns =
     (fst acc + length (filter (\<lambda>n. \<not> isCluster n \<and> \<not> (thr > 0 \<and> vdegree n < thr) \<and>
                                   \<not> (onlyNew \<and> vid n \<notin> blue)) ns),
      snd acc \<union> vid ` {n \<in> set ns. \<not> isCluster n \<and> \<not> (thr > 0 \<and> vdegree n < thr) \<and>
                                   \<not> (onlyNew \<and> vid n \<notin> blue)})"
  by (induction ns arbitrary: acc) (auto simp: totalsNodeStep_def Let_def)

lemma edges_fold:
  "foldl (totalsEdgeStep vis onlyNew conf) acc es =
     (fst acc + length (filter (\<lambda>e. source e \<in> vis \<and> target e \<in> vis \<and>
                  \<not> hideByConf (afmprob e) conf \<and> \<not> (onlyNew \<and> \<not> isNone (allDBs e))) es),
      snd acc + length (filter (\<lambda>e. source e \<in> vis \<and> target e \<in> vis \<and>
                  \<not> hideByConf (afmprob e) conf \<and> isNone (allDBs e)) es))"
  by (induction es arbitrary: acc) (auto simp: totalsEdgeStep_def Let_def)

lemma filter_length_mono:
  "(\<And>x. x \<in> set xs \<Longrightarrow> P x \<Longrightarrow> Q x) \<Longrightarrow> length (filter P xs) \<le> length (filter Q xs)"
  by (induction xs) auto

lemma hideByConf_mono: "conf \<le> conf' \<Longrightarrow> hideByConf ap conf \<Longrightarrow> hideByConf ap conf'"
  by (auto simp: hideByConf_def split: option.splits)

lemma nodeVisible_iff:
  "nodeVisible g thr onlyNew blue s \<longleftrightarrow>
     (\<exists>n \<in> set (vnodes g). vid n = s \<and> \<not> isCluster n \<and> \<not> (thr > 0 \<and> vdegree n < thr) \<and>
         \<not> (onlyNew \<and> s \<notin> blue))"
  unfolding nodeVisible_def visibleNodesOf_def nodes_fold by auto

lemma neighbors_fold_mono: "nb \<subseteq> foldl (neighborStep n onlyNew conf) nb es"
proof (induction es arbitrary: nb)
  case Nil
  show ?case by simp
next
  case (Cons e es)
  have "nb \<subseteq> neighborStep n onlyNew conf nb e"
    by (auto simp: neighborStep_def)
  also have "\<dots> \<subseteq> foldl (neighborStep n onlyNew conf) (neighborStep n onlyNew conf nb e) es"
    by (rule Cons.IH)
  finally show ?case by simp
qed

lemma neighbors_fold_incident:
  assumes "e \<in> set es" and "source e = n \<or> target e = n"
    and "\<not> (onlyNew \<and> \<not> isNone (allDBs e))" and "\<not> hideByConf (afmprob e) conf"
  shows "source e \<in> foldl (neighborStep n onlyNew conf) nb es \<and>
         target e \<in> foldl (neighborStep n onlyNew conf) nb es"
  using assms
proof (induction es arbitrary: nb)
  case Nil
  then show ?case by simp
next
  case (Cons x es)
  show ?case
  proof (cases "e = x")
    case True
    have "{source e, target e} \<subseteq> neighborStep n onlyNew conf nb x"
      using Cons.prems True by (auto simp: neighborStep_def)
    then show ?thesis
      using neighbors_fold_mono[of "neighborStep n onlyNew conf nb x" n onlyNew conf es] by auto
  next
    case False
    then have "e \<in> set es"
      using Cons.prems by simp
    from Cons.IH[OF this Cons.prems(2-4)] show ?thesis by simp
  qed
qed

lemma degree_edges_fold:
  "foldl (degreeTotalsEdgeStep vis onlyNew) acc es =
     (fst acc + length (filter (\<lambda>e. source e \<in> vis \<and> target e \<in> vis \<and>
                  \<not> (onlyNew \<and> \<not> isNone (allDBs e))) es),
      snd acc + length (filter (\<lambda>e. source e \<in> vis \<and> target e \<in> vis \<and> isNone (allDBs e)) es))"
  by (induction es arbitrary: acc) (auto simp: degreeTotalsEdgeStep_def)

text \<open>
  C4. The confidence floor hides an edge exactly when the edge has a score and the score is
  below the floor; an edge without a score is never hidden by it. For such an edge, at every
  floor, each place that applies the floor gives what the other filters alone give: the
  totals count it when both ends are visible and it passes the only-new filter (as the loop
  without a test of the score does), the "show all edges" effect shows it when the override
  is on and it passes the only-new filter, and the flags of \<open>setHovered\<close>, of a click on the
  stage, of the defocus callback and of the effect on the floor, and the two neighbour
  loops, are those of the same code without the test. In particular an edge without a score
  that is incident to the focused node and passes the only-new filter is shown when edges
  are shown on focus, whatever the floor.
\<close>

theorem confidence_floor_spares_unscored:
  "(hideByConf ap conf \<longleftrightarrow> (\<exists>p. ap = Some p \<and> p < conf)) \<and>
   (afmprob e = None \<longrightarrow>
      \<not> hideByConf (afmprob e) conf \<and>
      totalsEdgeStep vis onlyNew conf acc e = degreeTotalsEdgeStep vis onlyNew acc e \<and>
      totalsEdgeStep vis onlyNew conf acc e =
        (if source e \<in> vis \<and> target e \<in> vis \<and> \<not> (onlyNew \<and> \<not> isNone (allDBs e))
         then (fst acc + 1, if isNone (allDBs e) then snd acc + 1 else snd acc) else acc) \<and>
      showAllEdgesFlag sa onlyNew conf e = (\<not> (sa \<and> \<not> (onlyNew \<and> \<not> isNone (allDBs e)))) \<and>
      hoverEdgeHidden (v\<lparr>confidenceRef := conf\<rparr>) node nb e =
        (if showEdgesRef v \<and> \<not> showAllEdgesRef v
         then \<not> (truthy node \<and> source e \<in> nb \<and> target e \<in> nb) \<or>
              (showOnlyNewRef v \<and> \<not> isNone (allDBs e))
         else \<not> (showAllEdgesRef v \<and> \<not> truthy (focusedNodeRef v)) \<or>
              (showOnlyNewRef v \<and> \<not> isNone (allDBs e))) \<and>
      clickStageFlag (v\<lparr>confidenceRef := conf\<rparr>) e =
        (\<not> showAllEdgesRef v \<or> (showOnlyNewRef v \<and> \<not> isNone (allDBs e))) \<and>
      defocusEdgeFlag (v\<lparr>confidenceRef := conf\<rparr>) e =
        ((showOnlyNewRef v \<and> \<not> isNone (allDBs e)) \<or> hidden e) \<and>
      focusEdgeFlag nb onlyNew conf e =
        (\<not> (source e \<in> nb \<and> target e \<in> nb) \<or> (onlyNew \<and> \<not> isNone (allDBs e))) \<and>
      neighborStep n onlyNew conf nb e =
        (if (source e = n \<or> target e = n) \<and> \<not> (onlyNew \<and> \<not> isNone (allDBs e))
         then insert (target e) (insert (source e) nb) else nb) \<and>
      focusNeighborStep n vis onlyNew conf nb e =
        (if (source e = n \<or> target e = n) \<and> (if source e = n then target e else source e) \<in> vis \<and>
            \<not> (onlyNew \<and> \<not> isNone (allDBs e))
         then insert (target e) (insert (source e) nb) else nb)) \<and>
   (afmprob e = None \<and> e \<in> set (vedges (graph v)) \<and> n \<noteq> [] \<and>
      (source e = n \<or> target e = n) \<and> \<not> (showOnlyNewRef v \<and> \<not> isNone (allDBs e)) \<and>
      showEdgesRef v \<and> \<not> showAllEdgesRef v \<longrightarrow>
      \<not> hoverEdgeHidden (v\<lparr>confidenceRef := conf\<rparr>) (Some n)
          (hoverNeighbors (graph v) (Some n) (showOnlyNewRef v) conf) e) \<and>
   (hoverEdgeHidden (v\<lparr>confidenceRef := conf\<rparr>) node nb e \<and>
      \<not> hoverEdgeHidden (v\<lparr>confidenceRef := conf'\<rparr>) node nb e \<longrightarrow>
      (\<exists>p. afmprob e = Some p \<and> p < conf)) \<and>
   (totalsEdgeStep vis onlyNew conf acc e = acc \<and> totalsEdgeStep vis onlyNew conf' acc e \<noteq> acc \<longrightarrow>
      (\<exists>p. afmprob e = Some p \<and> p < conf))"
proof (intro conjI impI)
  show "hideByConf ap conf \<longleftrightarrow> (\<exists>p. ap = Some p \<and> p < conf)"
    by (cases ap) (simp_all add: hideByConf_def)
next
  assume a: "afmprob e = None"
  show "\<not> hideByConf (afmprob e) conf"
    using a by (simp add: hideByConf_def)
  show "totalsEdgeStep vis onlyNew conf acc e = degreeTotalsEdgeStep vis onlyNew acc e"
    using a by (simp add: totalsEdgeStep_def degreeTotalsEdgeStep_def hideByConf_def)
  show "totalsEdgeStep vis onlyNew conf acc e =
        (if source e \<in> vis \<and> target e \<in> vis \<and> \<not> (onlyNew \<and> \<not> isNone (allDBs e))
         then (fst acc + 1, if isNone (allDBs e) then snd acc + 1 else snd acc) else acc)"
    using a by (simp add: totalsEdgeStep_def hideByConf_def)
  show "showAllEdgesFlag sa onlyNew conf e = (\<not> (sa \<and> \<not> (onlyNew \<and> \<not> isNone (allDBs e))))"
    using a by (auto simp: showAllEdgesFlag_def hideByConf_def Let_def)
  show "hoverEdgeHidden (v\<lparr>confidenceRef := conf\<rparr>) node nb e =
        (if showEdgesRef v \<and> \<not> showAllEdgesRef v
         then \<not> (truthy node \<and> source e \<in> nb \<and> target e \<in> nb) \<or>
              (showOnlyNewRef v \<and> \<not> isNone (allDBs e))
         else \<not> (showAllEdgesRef v \<and> \<not> truthy (focusedNodeRef v)) \<or>
              (showOnlyNewRef v \<and> \<not> isNone (allDBs e)))"
    using a by (auto simp: hoverEdgeHidden_def hideByConf_def Let_def)
  show "clickStageFlag (v\<lparr>confidenceRef := conf\<rparr>) e =
        (\<not> showAllEdgesRef v \<or> (showOnlyNewRef v \<and> \<not> isNone (allDBs e)))"
    using a by (auto simp: clickStageFlag_def hideByConf_def Let_def)
  show "defocusEdgeFlag (v\<lparr>confidenceRef := conf\<rparr>) e =
        ((showOnlyNewRef v \<and> \<not> isNone (allDBs e)) \<or> hidden e)"
    using a by (auto simp: defocusEdgeFlag_def hideByConf_def Let_def)
  show "focusEdgeFlag nb onlyNew conf e =
        (\<not> (source e \<in> nb \<and> target e \<in> nb) \<or> (onlyNew \<and> \<not> isNone (allDBs e)))"
    using a by (auto simp: focusEdgeFlag_def hideByConf_def Let_def)
  show "neighborStep n onlyNew conf nb e =
        (if (source e = n \<or> target e = n) \<and> \<not> (onlyNew \<and> \<not> isNone (allDBs e))
         then insert (target e) (insert (source e) nb) else nb)"
    using a by (auto simp: neighborStep_def hideByConf_def Let_def)
  show "focusNeighborStep n vis onlyNew conf nb e =
        (if (source e = n \<or> target e = n) \<and> (if source e = n then target e else source e) \<in> vis \<and>
            \<not> (onlyNew \<and> \<not> isNone (allDBs e))
         then insert (target e) (insert (source e) nb) else nb)"
    using a by (auto simp: focusNeighborStep_def hideByConf_def Let_def)
next
  assume a: "afmprob e = None \<and> e \<in> set (vedges (graph v)) \<and> n \<noteq> [] \<and>
      (source e = n \<or> target e = n) \<and> \<not> (showOnlyNewRef v \<and> \<not> isNone (allDBs e)) \<and>
      showEdgesRef v \<and> \<not> showAllEdgesRef v"
  then have h: "\<not> hideByConf (afmprob e) conf"
    by (simp add: hideByConf_def)
  have "source e \<in> hoverNeighbors (graph v) (Some n) (showOnlyNewRef v) conf \<and>
      target e \<in> hoverNeighbors (graph v) (Some n) (showOnlyNewRef v) conf"
    using a h neighbors_fold_incident[of e "vedges (graph v)" n "showOnlyNewRef v" conf "{n}"]
    by (simp add: hoverNeighbors_def)
  then show "\<not> hoverEdgeHidden (v\<lparr>confidenceRef := conf\<rparr>) (Some n)
          (hoverNeighbors (graph v) (Some n) (showOnlyNewRef v) conf) e"
    using a h by (simp add: hoverEdgeHidden_def truthy_def)
next
  assume "hoverEdgeHidden (v\<lparr>confidenceRef := conf\<rparr>) node nb e \<and>
      \<not> hoverEdgeHidden (v\<lparr>confidenceRef := conf'\<rparr>) node nb e"
  then show "\<exists>p. afmprob e = Some p \<and> p < conf"
    by (auto simp: hoverEdgeHidden_def hideByConf_def Let_def split: if_splits option.splits)
next
  assume "totalsEdgeStep vis onlyNew conf acc e = acc \<and> totalsEdgeStep vis onlyNew conf' acc e \<noteq> acc"
  then show "\<exists>p. afmprob e = Some p \<and> p < conf"
    by (auto simp: totalsEdgeStep_def hideByConf_def split: if_splits option.splits)
qed

theorem confidence_floor_spares_unscored_witness:
  "afmprob unscoredEdge = None \<and>
   \<not> hideByConf (afmprob unscoredEdge) (9/10) \<and>
   totalsEdgeStep {''a'', ''b''} False (9/10) (0, 0) unscoredEdge = (1, 0) \<and>
   showAllEdgesFlag True False (9/10) unscoredEdge = False \<and>
   hoverEdgeHidden (lowDegreePair\<lparr>showAllEdgesRef := False, confidenceRef := 9/10\<rparr>) (Some ''a'')
      (hoverNeighbors (graph lowDegreePair) (Some ''a'') False (9/10)) unscoredEdge = False"
  using confidence_floor_spares_unscored
    [of "afmprob unscoredEdge" "9/10" unscoredEdge "{''a'', ''b''}" False "(0, 0)" True
        "lowDegreePair\<lparr>showAllEdgesRef := False\<rparr>" "Some ''a''" "{}" "''a''" "0"]
  by (simp add: unscoredEdge_def lowDegreePair_def degreeTotalsEdgeStep_def
      isNone_def trim_def toLowerCase_def toLowerChar_def isSpace_def)

section \<open>The totals that the controls report\<close>

lemma showAllEdgesEffect_totals [simp]: "totals (showAllEdgesEffect sa c v) = totals v"
  by (simp add: showAllEdgesEffect_def)

lemma confidenceEffect_totals [simp]: "totals (confidenceEffect c v) = totals v"
  by (simp add: confidenceEffect_def Let_def split: option.splits)

text \<open>
  A move of the confidence slider to \<open>x\<close> reports the totals of the floor of the last
  render, not of \<open>x\<close>; the effect on \<open>[showOnlyNew]\<close> reads \<open>confidenceRef\<close>, which the
  handler has just set to \<open>x\<close>.
\<close>

lemma confidence_input_reads_old_floor:
  "totals (step ft v (now, ConfidenceInput x)) =
     recomputeTotalsImmediate (graph v) (degreeThresholdRef v) (showOnlyNewRef v) (confidence v)
       (nodesBlueSetRef v)"
  by (simp add: onConfidenceChange_def Let_def)

lemma confidence_input_sets_floor:
  "confidence (step ft v (now, ConfidenceInput x)) = x \<and>
   confidenceRef (step ft v (now, ConfidenceInput x)) = x \<and>
   degreeThresholdRef (step ft v (now, ConfidenceInput x)) = degreeThresholdRef v \<and>
   showOnlyNewRef (step ft v (now, ConfidenceInput x)) = showOnlyNewRef v \<and>
   nodesBlueSetRef (step ft v (now, ConfidenceInput x)) = nodesBlueSetRef v"
  by (simp add: onConfidenceChange_def confidenceEffect_def showAllEdgesEffect_def Let_def
      split: option.splits)

lemma only_new_effect_reads_ref:
  "totals (showOnlyNewEffect v) =
     recomputeTotalsImmediate (graph v) (degreeThresholdRef v) (showOnlyNew v) (confidenceRef v)
       (nodesBlueSetRef v)"
  by (simp add: showOnlyNewEffect_def Let_def)

text \<open>
  A move of the degree slider to a new value \<open>x\<close> reports the node count of \<open>x\<close>, from the
  effect on \<open>[degreeThreshold]\<close>.
\<close>

lemma degree_input_counts_new_floor:
  "x \<noteq> degreeThreshold v \<Longrightarrow>
     tnodes (totals (step ft v (now, DegreeInput x))) =
       tnodes (recomputeTotalsImmediate (graph v) x (showOnlyNewRef v) conf (nodesBlueSetRef v))"
  by (simp add: onDegreeChange_def degreeEffect_def recomputeTotalsImmediate_def Let_def)

text \<open>
  The function itself is monotone in the values it is given: a higher degree floor gives no
  more nodes, a higher confidence floor no more edges.
\<close>

lemma recomputeTotals_monotone:
  "(thr \<le> thr' \<longrightarrow>
      tnodes (recomputeTotalsImmediate g thr' onlyNew conf blue)
        \<le> tnodes (recomputeTotalsImmediate g thr onlyNew conf blue)) \<and>
   (conf \<le> conf' \<longrightarrow>
      tedges (recomputeTotalsImmediate g thr onlyNew conf' blue)
        \<le> tedges (recomputeTotalsImmediate g thr onlyNew conf blue))"
proof (intro conjI impI)
  assume le: "thr \<le> thr'"
  show "tnodes (recomputeTotalsImmediate g thr' onlyNew conf blue)
        \<le> tnodes (recomputeTotalsImmediate g thr onlyNew conf blue)"
    unfolding recomputeTotalsImmediate_def visibleNodesOf_def Let_def nodes_fold
    using le by (auto intro!: filter_length_mono)
next
  assume le: "conf \<le> conf'"
  show "tedges (recomputeTotalsImmediate g thr onlyNew conf' blue)
        \<le> tedges (recomputeTotalsImmediate g thr onlyNew conf blue)"
    unfolding recomputeTotalsImmediate_def Let_def edges_fold
    using le by (auto intro!: filter_length_mono dest: hideByConf_mono)
qed

lemma scenario_counts:
  "tedges (recomputeTotalsImmediate scenarioGraph 0 False (99/100) {''p1'', ''p2'', ''p3''}) = 0"
  "tedges (recomputeTotalsImmediate scenarioGraph 0 False (1/10) {''p1'', ''p2'', ''p3''}) = 3"
  "tedges (recomputeTotalsImmediate scenarioGraph 0 False (2/10) {''p1'', ''p2'', ''p3''}) = 3"
  by (simp_all add: scenarioGraph_def recomputeTotalsImmediate_def visibleNodesOf_def
      totalsNodeStep_def totalsEdgeStep_def hideByConf_def
      isNone_def trim_def toLowerCase_def toLowerChar_def isSpace_def)

lemma scenario_minProb: "minProb (vedges scenarioGraph) = 2/10"
  by (simp add: minProb_def scenarioGraph_def)

lemma scenarioLoaded_floor:
  "scenarioLoaded = scenarioLoaded\<lparr>confidence := 2/10, confidenceRef := 2/10\<rparr>"
  "confidence scenarioLoaded = 2/10" "confidenceRef scenarioLoaded = 2/10"
  "graph scenarioLoaded = scenarioGraph" "showAllEdges scenarioLoaded = False"
  "focusedNodeRef scenarioLoaded = None" "degreeThresholdRef scenarioLoaded = 0"
  "showOnlyNewRef scenarioLoaded = False" "nodesBlueSetRef scenarioLoaded = {''p1'', ''p2'', ''p3''}"
  by (simp_all add: scenarioLoaded_def scenario_minProb)

text \<open>
  C6. Raising the confidence floor never increases the visible-edge count that is
  reported. The handler of the slider calls \<open>recomputeTotalsImmediate\<close>, which reads the
  \<open>confidence\<close> of the last render instead of the new value (the handler has just written
  the new value to \<open>confidenceRef\<close>), and no effect on \<open>[confidence]\<close> sets the totals. In
  the scenario, after the moves to 0.99 and then to 0.1 the count reported at floor 0.1 is
  0, and the move from 0.1 up to 0.2 raises the reported count to 3, while the other filters
  stay as they are; the function gives 3 for both floors.
\<close>

theorem raised_floor_raises_reported_count:
  "confidence (foldl (step zoomIn) scenarioLoaded
      [(1000, ConfidenceInput (99/100)), (2000, ConfidenceInput (1/10))]) = 1/10 \<and>
   tedges (totals (foldl (step zoomIn) scenarioLoaded
      [(1000, ConfidenceInput (99/100)), (2000, ConfidenceInput (1/10))])) = 0 \<and>
   confidence (foldl (step zoomIn) scenarioLoaded
      [(1000, ConfidenceInput (99/100)), (2000, ConfidenceInput (1/10)),
       (3000, ConfidenceInput (2/10))]) = 2/10 \<and>
   tedges (totals (foldl (step zoomIn) scenarioLoaded
      [(1000, ConfidenceInput (99/100)), (2000, ConfidenceInput (1/10)),
       (3000, ConfidenceInput (2/10))])) = 3 \<and>
   tedges (recomputeTotalsImmediate scenarioGraph 0 False (1/10) {''p1'', ''p2'', ''p3''}) = 3 \<and>
   tedges (recomputeTotalsImmediate scenarioGraph 0 False (2/10) {''p1'', ''p2'', ''p3''}) = 3 \<and>
   confidence scenarioLoaded = 2/10"
proof -
  define s1 where "s1 = step zoomIn scenarioLoaded (1000, ConfidenceInput (99/100))"
  define s2 where "s2 = step zoomIn s1 (2000, ConfidenceInput (1/10))"
  define s3 where "s3 = step zoomIn s2 (3000, ConfidenceInput (2/10))"
  note l = scenarioLoaded_floor(2-9)
  have hid: "map (\<lambda>e. e\<lparr>hidden := True\<rparr>) (vedges scenarioGraph) = vedges scenarioGraph"
    by (simp add: scenarioGraph_def)
  have quiet: "graph (step zoomIn v (now, ConfidenceInput x)) = scenarioGraph \<and>
      showAllEdges (step zoomIn v (now, ConfidenceInput x)) = False \<and>
      focusedNodeRef (step zoomIn v (now, ConfidenceInput x)) = None"
    if "graph v = scenarioGraph" "showAllEdges v = False" "focusedNodeRef v = None" for v now x
    using that hid
    by (simp add: onConfidenceChange_def confidenceEffect_def showAllEdgesEffect_def
        showAllEdgesFlag_def truthy_def Let_def)
  have q1: "graph s1 = scenarioGraph" "showAllEdges s1 = False" "focusedNodeRef s1 = None"
    using quiet[OF l(3,4,5)] by (simp_all add: s1_def)
  have q2: "graph s2 = scenarioGraph"
    using quiet[OF q1] by (simp add: s2_def)
  have r1: "confidence s1 = 99/100" "degreeThresholdRef s1 = 0" "showOnlyNewRef s1 = False"
    "nodesBlueSetRef s1 = {''p1'', ''p2'', ''p3''}"
    using confidence_input_sets_floor[of zoomIn scenarioLoaded 1000 "99/100"] l
    by (simp_all add: s1_def)
  have r2: "confidence s2 = 1/10" "degreeThresholdRef s2 = 0" "showOnlyNewRef s2 = False"
    "nodesBlueSetRef s2 = {''p1'', ''p2'', ''p3''}"
    using confidence_input_sets_floor[of zoomIn s1 2000 "1/10"] r1
    by (simp_all add: s2_def)
  have r3: "confidence s3 = 2/10"
    using confidence_input_sets_floor[of zoomIn s2 3000 "2/10"]
    by (simp add: s3_def)
  note counts = scenario_counts
  have t2: "tedges (totals s2) = 0"
    unfolding s2_def confidence_input_reads_old_floor q1 r1 by (rule counts(1))
  have t3: "tedges (totals s3) = 3"
    unfolding s3_def confidence_input_reads_old_floor q2 r2 by (rule counts(2))
  have "foldl (step zoomIn) scenarioLoaded
      [(1000, ConfidenceInput (99/100)), (2000, ConfidenceInput (1/10))] = s2"
    "foldl (step zoomIn) scenarioLoaded
      [(1000, ConfidenceInput (99/100)), (2000, ConfidenceInput (1/10)),
       (3000, ConfidenceInput (2/10))] = s3"
    by (simp_all only: foldl.simps s1_def s2_def s3_def)
  then show ?thesis
    using r2(1) t2 r3 t3 counts(2,3) l(1) by (simp only: simp_thms)
qed

section \<open>Edges and their endpoints\<close>

text \<open>
  When the only-new control is switched, the effect on
  \<open>[showAllEdges, confidence, showOnlyNew]\<close> runs before \<open>showOnlyNewRef\<close> is updated: the
  flags it writes are those of the value the ref had before.
\<close>

lemma only_new_toggle_flags:
  "x \<noteq> showOnlyNew v \<Longrightarrow> \<not> truthy (focusedNodeRef v) \<Longrightarrow>
     map hidden (vedges (graph (step ft v (now, ShowOnlyNewInput x)))) =
       map (showAllEdgesFlag (showAllEdges v) (showOnlyNewRef v) (confidence v)) (vedges (graph v))"
  by (simp add: onShowOnlyNewChange_def showOnlyNewEffect_def showAllEdgesEffect_def Let_def o_def)

text \<open>
  C7, as amended. The passes that recompute the aggregate counts after a change of a filter
  control (\<open>recomputeTotalsImmediate\<close>, whose two loops the effect on only-new repeats, and
  the pass of the effect on the degree floor) count an edge only if both of its endpoints
  are in the set of visible nodes that the same pass has built from the degree floor and
  the only-new flag it reads. The per-edge \<open>hidden\<close> flags carry no such guarantee: the
  loop of the "show all edges" effect, which runs while no node is focused, computes the
  flag of an edge from the edge's own provenance tag and score and from the values the
  effect reads (with the override on: \<open>showOnlyNewRef\<close> and the \<open>confidence\<close> of the render),
  and does not look at the endpoints.
\<close>

theorem edge_visibility_endpoints:
  "tedges (recomputeTotalsImmediate g thr onlyNew conf blue) =
      length (filter (\<lambda>e. nodeVisible g thr onlyNew blue (source e) \<and>
                          nodeVisible g thr onlyNew blue (target e) \<and>
                          \<not> hideByConf (afmprob e) conf \<and>
                          \<not> (onlyNew \<and> \<not> isNone (allDBs e))) (vedges g)) \<and>
   tblueEdges (recomputeTotalsImmediate g thr onlyNew conf blue) =
      length (filter (\<lambda>e. nodeVisible g thr onlyNew blue (source e) \<and>
                          nodeVisible g thr onlyNew blue (target e) \<and>
                          \<not> hideByConf (afmprob e) conf \<and> isNone (allDBs e)) (vedges g)) \<and>
   tedges (totals (degreeEffect v)) =
      length (filter (\<lambda>e. nodeVisible (graph v) (degreeThreshold v) (showOnlyNewRef v)
                            (nodesBlueSetRef v) (source e) \<and>
                          nodeVisible (graph v) (degreeThreshold v) (showOnlyNewRef v)
                            (nodesBlueSetRef v) (target e) \<and>
                          \<not> (showOnlyNewRef v \<and> \<not> isNone (allDBs e))) (vedges (graph v))) \<and>
   (\<not> truthy (focusedNodeRef v) \<longrightarrow>
      map hidden (vedges (graph (showAllEdgesEffect True conf v))) =
      map (\<lambda>e. (showOnlyNewRef v \<and> \<not> isNone (allDBs e)) \<or> hideByConf (afmprob e) conf)
        (vedges (graph v)))"
  by (simp add: recomputeTotalsImmediate_def Let_def edges_fold degree_edges_fold nodeVisible_def
      degreeEffect_def showAllEdgesEffect_def showAllEdgesFlag_def o_def)

theorem edge_visibility_endpoints_witness:
  "\<not> truthy (focusedNodeRef lowDegreePair) \<and>
   map hidden (vedges (graph (showAllEdgesEffect True 0 lowDegreePair))) = [False] \<and>
   tedges (recomputeTotalsImmediate (graph lowDegreePair) 5 False 0 {}) = 0 \<and>
   tedges (totals (degreeEffect lowDegreePair)) = 0"
  using edge_visibility_endpoints [of "graph lowDegreePair" 5 False 0 "{}" lowDegreePair]
  by (simp add: lowDegreePair_def unscoredEdge_def truthy_def hideByConf_def nodeVisible_def
      visibleNodesOf_def totalsNodeStep_def
      isNone_def trim_def toLowerCase_def toLowerChar_def isSpace_def)

text \<open>
  The claim as stated fails: with the override on, degree floor 5 and two proteins of
  degree 1, the effect clears the \<open>hidden\<close> flag of their edge although its source is not
  visible under the node filters.
\<close>

theorem show_all_edges_counterexample:
  "\<exists>e \<in> set (vedges (graph (showAllEdgesEffect True 0 lowDegreePair))).
      \<not> hidden e \<and>
      \<not> nodeVisible (graph lowDegreePair) (degreeThresholdRef lowDegreePair)
          (showOnlyNewRef lowDegreePair) (nodesBlueSetRef lowDegreePair) (source e)"
  by (simp add: lowDegreePair_def unscoredEdge_def showAllEdgesEffect_def showAllEdgesFlag_def
      truthy_def hideByConf_def nodeVisible_def visibleNodesOf_def totalsNodeStep_def)

section \<open>The focus state machine\<close>

lemma setHoveredBody_keeps_snapshot:
  "truthy (focusedNodeRef v) \<Longrightarrow>
     prevCamStateRef (setHoveredBody ft node v) = prevCamStateRef v \<and>
     truthy (focusedNodeRef (setHoveredBody ft node v))"
  by (auto simp: setHoveredBody_def Let_def truthy_def split: option.splits)

lemma setHoveredBody_takes_snapshot:
  "\<not> truthy (focusedNodeRef v) \<Longrightarrow> b \<noteq> [] \<Longrightarrow>
     prevCamStateRef (setHoveredBody ft (Some b) v) = Some (camera v) \<and>
     focusedNodeRef (setHoveredBody ft (Some b) v) = Some b"
  by (auto simp: setHoveredBody_def Let_def truthy_def split: option.splits)

lemma setHovered_keeps_snapshot:
  "truthy (focusedNodeRef v) \<Longrightarrow>
     prevCamStateRef (setHovered ft now node v) = prevCamStateRef v \<and>
     truthy (focusedNodeRef (setHovered ft now node v))"
  using setHoveredBody_keeps_snapshot[of "v\<lparr>lastSetHovered := now\<rparr>" ft node]
  by (simp add: setHovered_def)

lemma setHovered_takes_snapshot:
  "\<not> truthy (focusedNodeRef v) \<Longrightarrow> b \<noteq> [] \<Longrightarrow> throttle 24 (lastSetHovered v) now \<Longrightarrow>
     prevCamStateRef (setHovered ft now (Some b) v) = Some (camera v) \<and>
     focusedNodeRef (setHovered ft now (Some b) v) = Some b"
  using setHoveredBody_takes_snapshot[of "v\<lparr>lastSetHovered := now\<rparr>" b ft]
  by (simp add: setHovered_def)

lemma controls_keep_focus:
  "prevCamStateRef (onConfidenceChange x v) = prevCamStateRef v"
  "focusedNodeRef (onConfidenceChange x v) = focusedNodeRef v"
  "prevCamStateRef (onDegreeChange d v) = prevCamStateRef v"
  "focusedNodeRef (onDegreeChange d v) = focusedNodeRef v"
  "prevCamStateRef (onShowOnlyNewChange b v) = prevCamStateRef v"
  "focusedNodeRef (onShowOnlyNewChange b v) = focusedNodeRef v"
  "prevCamStateRef (onShowAllEdgesChange b v) = prevCamStateRef v"
  "focusedNodeRef (onShowAllEdgesChange b v) = focusedNodeRef v"
  by (simp_all add: onConfidenceChange_def onDegreeChange_def onShowOnlyNewChange_def
      onShowAllEdgesChange_def confidenceEffect_def showAllEdgesEffect_def degreeEffect_def
      showOnlyNewEffect_def Let_def split: option.splits)

lemma previewHover_keeps_focus:
  "prevCamStateRef (previewHover now node v) = prevCamStateRef v \<and>
   focusedNodeRef (previewHover now node v) = focusedNodeRef v"
  by (simp add: previewHover_def previewHoverBody_def)

lemma step_keeps_snapshot:
  "truthy (focusedNodeRef v) \<Longrightarrow> ev \<noteq> DefocusTimer \<Longrightarrow>
     prevCamStateRef (step ft v (now, ev)) = prevCamStateRef v \<and>
     truthy (focusedNodeRef (step ft v (now, ev)))"
  by (cases ev) (simp_all add: setHovered_keeps_snapshot controls_keep_focus previewHover_keeps_focus)

lemma steps_keep_snapshot:
  "truthy (focusedNodeRef v) \<Longrightarrow> DefocusTimer \<notin> snd ` set evs \<Longrightarrow>
     prevCamStateRef (foldl (step ft) v evs) = prevCamStateRef v \<and>
     truthy (focusedNodeRef (foldl (step ft) v evs))"
proof (induction evs arbitrary: v)
  case Nil
  then show ?case by simp
next
  case (Cons tev evs)
  obtain now ev where tev: "tev = (now, ev)"
    by (cases tev)
  from Cons.prems tev have ne: "ev \<noteq> DefocusTimer" and rest: "DefocusTimer \<notin> snd ` set evs"
    by auto
  from step_keeps_snapshot[OF Cons.prems(1) ne, of ft now]
  have a: "prevCamStateRef (step ft v tev) = prevCamStateRef v"
    and b: "truthy (focusedNodeRef (step ft v tev))"
    by (auto simp: tev)
  from Cons.IH[OF b rest] a show ?case by simp
qed

lemma clickStage_arms_timer:
  "truthy (focusedNodeRef v) \<Longrightarrow> throttle 24 (lastSetHovered v) now \<Longrightarrow>
     defocusTimerRef (step ft v (now, ClickStage))"
  by (auto simp: setHovered_def setHoveredBody_def Let_def truthy_def split: option.splits)

lemma defocus_restores:
  "defocusTimerRef v \<Longrightarrow> prevCamStateRef v = Some c \<Longrightarrow>
     camera (step ft v (now, DefocusTimer)) = c \<and> focusedNodeRef (step ft v (now, DefocusTimer)) = None"
  by (simp add: defocusTimerFires_def animate_def)

text \<open>
  C8, as amended. With the Sigma renderer: a call of \<open>setHovered\<close> within 24 ms of the last
  call that ran is dropped and changes nothing. A call on a node while a node is focused
  keeps the saved camera state; a call that runs on a node while no node is focused saves
  the current camera state. After a click on a node that runs from the unfocused state,
  followed by any events other than the firing of the defocus timer (clicks, searches,
  hovers, camera movements, animation timers, moves of the controls, whether their calls run
  or are dropped), the saved state is the camera state before that click and a node is
  focused. If the defocus timer is then pending, its firing brings the camera to that state
  and clears the focus; in particular this is so after a click on the stage that runs.
\<close>

theorem focus_defocus_round_trip:
  "(\<not> throttle 24 (lastSetHovered v) now \<longrightarrow> setHovered ft now node v = v) \<and>
   (truthy (focusedNodeRef v) \<longrightarrow>
      prevCamStateRef (setHovered ft now (Some b) v) = prevCamStateRef v) \<and>
   (\<not> truthy (focusedNodeRef v) \<and> b \<noteq> [] \<and> throttle 24 (lastSetHovered v) now \<longrightarrow>
      prevCamStateRef (setHovered ft now (Some b) v) = Some (camera v)) \<and>
   (\<not> truthy (focusedNodeRef v) \<and> n1 \<noteq> [] \<and> throttle 24 (lastSetHovered v) t1 \<and>
      DefocusTimer \<notin> snd ` set evs \<longrightarrow>
      prevCamStateRef (foldl (step ft) (step ft v (t1, ClickNode n1)) evs) = Some (camera v) \<and>
      truthy (focusedNodeRef (foldl (step ft) (step ft v (t1, ClickNode n1)) evs)) \<and>
      (defocusTimerRef (foldl (step ft) (step ft v (t1, ClickNode n1)) evs) \<longrightarrow>
         camera (step ft (foldl (step ft) (step ft v (t1, ClickNode n1)) evs) (t3, DefocusTimer))
           = camera v \<and>
         focusedNodeRef (step ft (foldl (step ft) (step ft v (t1, ClickNode n1)) evs)
           (t3, DefocusTimer)) = None) \<and>
      (throttle 24 (lastSetHovered (foldl (step ft) (step ft v (t1, ClickNode n1)) evs)) t2 \<longrightarrow>
         camera (step ft (step ft (foldl (step ft) (step ft v (t1, ClickNode n1)) evs)
                   (t2, ClickStage)) (t3, DefocusTimer)) = camera v \<and>
         focusedNodeRef (step ft (step ft (foldl (step ft) (step ft v (t1, ClickNode n1)) evs)
                   (t2, ClickStage)) (t3, DefocusTimer)) = None))"
proof (intro conjI impI)
  assume "\<not> throttle 24 (lastSetHovered v) now"
  then show "setHovered ft now node v = v"
    by (simp add: setHovered_def)
next
  assume "truthy (focusedNodeRef v)"
  then show "prevCamStateRef (setHovered ft now (Some b) v) = prevCamStateRef v"
    by (simp add: setHovered_keeps_snapshot)
next
  assume "\<not> truthy (focusedNodeRef v) \<and> b \<noteq> [] \<and> throttle 24 (lastSetHovered v) now"
  then show "prevCamStateRef (setHovered ft now (Some b) v) = Some (camera v)"
    by (simp add: setHovered_takes_snapshot)
next
  assume a: "\<not> truthy (focusedNodeRef v) \<and> n1 \<noteq> [] \<and> throttle 24 (lastSetHovered v) t1 \<and>
      DefocusTimer \<notin> snd ` set evs"
  define v1 where "v1 = step ft v (t1, ClickNode n1)"
  define v2 where "v2 = foldl (step ft) v1 evs"
  have s1: "prevCamStateRef v1 = Some (camera v)" "truthy (focusedNodeRef v1)"
    using a setHovered_takes_snapshot[of "v\<lparr>defocusTimerRef := False\<rparr>" n1 t1 ft]
    by (simp_all add: v1_def truthy_def)
  have s2: "prevCamStateRef v2 = Some (camera v)" "truthy (focusedNodeRef v2)"
    using steps_keep_snapshot[OF s1(2), of evs ft] a s1(1) by (simp_all add: v2_def)
  show "prevCamStateRef (foldl (step ft) (step ft v (t1, ClickNode n1)) evs) = Some (camera v)"
    and "truthy (focusedNodeRef (foldl (step ft) (step ft v (t1, ClickNode n1)) evs))"
    using s2 by (simp_all add: v1_def v2_def)
  {
    assume "defocusTimerRef (foldl (step ft) (step ft v (t1, ClickNode n1)) evs)"
    then have "defocusTimerRef v2"
      by (simp add: v1_def v2_def)
    from defocus_restores[OF this s2(1), of ft t3]
    show "camera (step ft (foldl (step ft) (step ft v (t1, ClickNode n1)) evs) (t3, DefocusTimer))
           = camera v"
      and "focusedNodeRef (step ft (foldl (step ft) (step ft v (t1, ClickNode n1)) evs)
           (t3, DefocusTimer)) = None"
      by (simp_all add: v1_def v2_def)
  }
  {
    assume "throttle 24 (lastSetHovered (foldl (step ft) (step ft v (t1, ClickNode n1)) evs)) t2"
    then have t: "throttle 24 (lastSetHovered v2) t2"
      by (simp add: v1_def v2_def)
    define v3 where "v3 = step ft v2 (t2, ClickStage)"
    have s3: "prevCamStateRef v3 = Some (camera v)" "defocusTimerRef v3"
      using step_keeps_snapshot[OF s2(2), of ClickStage ft t2] s2(1)
        clickStage_arms_timer[OF s2(2) t, of ft]
      by (simp_all add: v3_def)
    from defocus_restores[OF s3(2) s3(1), of ft t3]
    show "camera (step ft (step ft (foldl (step ft) (step ft v (t1, ClickNode n1)) evs)
                   (t2, ClickStage)) (t3, DefocusTimer)) = camera v"
      and "focusedNodeRef (step ft (step ft (foldl (step ft) (step ft v (t1, ClickNode n1)) evs)
                   (t2, ClickStage)) (t3, DefocusTimer)) = None"
      by (simp_all add: v1_def v2_def v3_def)
  }
qed

lemma example_run:
  "foldl (step zoomIn) lowDegreePair
     [(1000, ClickNode ''a''), (1520, AnimationTimer), (2000, ClickNode ''b'')] =
   lowDegreePair\<lparr>camera := \<lparr>camX = 1/2, camY = 1/2, ratio = 169/400, angle = 0\<rparr>,
                  focusedNodeRef := Some ''b'',
                  prevCamStateRef := Some \<lparr>camX = 1/2, camY = 1/2, ratio = 1, angle = 0\<rparr>,
                  isAnimatingRef := True, lastSetHovered := 2000\<rparr>"
  by (simp add: lowDegreePair_def unscoredEdge_def zoomIn_def setHovered_def setHoveredBody_def
      throttle_def truthy_def hoverNeighbors_def neighborStep_def hoverEdgeHidden_def
      hideByConf_def Let_def isNone_def trim_def toLowerCase_def toLowerChar_def isSpace_def)

theorem focus_defocus_round_trip_witness:
  "\<not> truthy (focusedNodeRef lowDegreePair) \<and>
   throttle 24 (lastSetHovered lowDegreePair) 1000 \<and>
   DefocusTimer \<notin> snd ` set [(1520, AnimationTimer), (2000, ClickNode ''b'')] \<and>
   throttle 24 (lastSetHovered (foldl (step zoomIn) lowDegreePair
      [(1000, ClickNode ''a''), (1520, AnimationTimer), (2000, ClickNode ''b'')])) 3000 \<and>
   camera (foldl (step zoomIn) lowDegreePair
             [(1000, ClickNode ''a''), (1520, AnimationTimer), (2000, ClickNode ''b'')])
     = \<lparr>camX = 1/2, camY = 1/2, ratio = 169/400, angle = 0\<rparr> \<and>
   camera (foldl (step zoomIn) lowDegreePair
             [(1000, ClickNode ''a''), (1520, AnimationTimer), (2000, ClickNode ''b''),
              (3000, ClickStage), (3180, DefocusTimer)])
     = \<lparr>camX = 1/2, camY = 1/2, ratio = 1, angle = 0\<rparr>"
proof -
  have c: "camera lowDegreePair = \<lparr>camX = 1/2, camY = 1/2, ratio = 1, angle = 0\<rparr>"
    "\<not> truthy (focusedNodeRef lowDegreePair)" "throttle 24 (lastSetHovered lowDegreePair) 1000"
    by (simp_all add: lowDegreePair_def truthy_def throttle_def)
  have d: "DefocusTimer \<notin> snd ` set [(1520::real, AnimationTimer), (2000, ClickNode ''b'')]"
    by simp
  have t: "throttle 24 (lastSetHovered (foldl (step zoomIn) lowDegreePair
      [(1000, ClickNode ''a''), (1520, AnimationTimer), (2000, ClickNode ''b'')])) 3000"
    unfolding example_run by (simp add: throttle_def)
  have m: "camera (foldl (step zoomIn) lowDegreePair
             [(1000, ClickNode ''a''), (1520, AnimationTimer), (2000, ClickNode ''b'')])
     = \<lparr>camX = 1/2, camY = 1/2, ratio = 169/400, angle = 0\<rparr>"
    unfolding example_run by simp
  from focus_defocus_round_trip
    [of lowDegreePair 0 zoomIn None "''b''" "''a''" 1000
        "[(1520, AnimationTimer), (2000, ClickNode ''b'')]" 3180 3000]
  have "camera (step zoomIn (step zoomIn (foldl (step zoomIn)
            (step zoomIn lowDegreePair (1000, ClickNode ''a''))
            [(1520, AnimationTimer), (2000, ClickNode ''b'')]) (3000, ClickStage))
          (3180, DefocusTimer)) = camera lowDegreePair"
    using c d t by simp
  then show ?thesis
    using c d t m by simp
qed

text \<open>
  The claim as stated fails in the canvas fallback: a click on node \<open>a\<close> zooms the view in
  on it, and the click on empty space that ends the focus leaves the view where the zoom
  put it; the fallback keeps no state of the view to return to.
\<close>

theorem canvas_defocus_counterexample:
  "viewRef twoNodeCanvas = \<lparr>scale = 1, tx = 20, ty = 20\<rparr> \<and>
   hovered (onClick (20, 20) twoNodeCanvas) = Some ''a'' \<and>
   viewRef (onClick (20, 20) twoNodeCanvas) = \<lparr>scale = 7/5, tx = 70, ty = 70\<rparr> \<and>
   hovered (onClick (0, 139) (onClick (20, 20) twoNodeCanvas)) = None \<and>
   viewRef (onClick (0, 139) (onClick (20, 20) twoNodeCanvas)) = \<lparr>scale = 7/5, tx = 70, ty = 70\<rparr> \<and>
   viewRef (onClick (0, 139) (onClick (20, 20) twoNodeCanvas)) \<noteq> viewRef twoNodeCanvas"
proof -
  define k0 where "k0 =
      \<lparr>cnodes = [\<lparr>fid = ''a'', fx = 0, fy = 0\<rparr>, \<lparr>fid = ''b'', fx = 100, fy = 100\<rparr>],
       viewRef = \<lparr>scale = 1, tx = 20, ty = 20\<rparr>, hovered = None,
       rectWidth = 140, rectHeight = 140\<rparr>"
  define k1 where "k1 = k0\<lparr>viewRef := \<lparr>scale = 7/5, tx = 70, ty = 70\<rparr>, hovered := Some ''a''\<rparr>"
  define k2 where "k2 = k1\<lparr>hovered := None\<rparr>"
  have fit: "twoNodeCanvas = k0"
    by (simp add: twoNodeCanvas_def k0_def computeFit_def least_def greatest_def orOneR_def Let_def)
  have c1: "onClick (20, 20) k0 = k1"
    by (simp add: k0_def k1_def onClick_def screenToWorld_def nearest_def nodeAt_def
        animateTo_def clamp_def least_def greatest_def truthy_def Let_def)
  have c2: "onClick (0, 139) k1 = k2"
    by (simp add: k0_def k1_def k2_def onClick_def screenToWorld_def nearest_def truthy_def
        Let_def)
  show ?thesis
    unfolding fit c1 c2 by (simp add: k0_def k1_def k2_def)
qed

text \<open>
  With the Sigma renderer, a click on the stage 10 ms after the click that focused a node
  is dropped by the throttle: no timer is started and the node stays focused.
\<close>

lemma dropped_stage_click_keeps_focus:
  "focusedNodeRef (foldl (step zoomIn) lowDegreePair
      [(1000, ClickNode ''a''), (1010, ClickStage), (1190, DefocusTimer)]) = Some ''a'' \<and>
   camera (foldl (step zoomIn) lowDegreePair
      [(1000, ClickNode ''a''), (1010, ClickStage), (1190, DefocusTimer)])
     = \<lparr>camX = 1/2, camY = 1/2, ratio = 65/100, angle = 0\<rparr>"
  by (simp add: lowDegreePair_def unscoredEdge_def zoomIn_def setHovered_def setHoveredBody_def
      throttle_def truthy_def hoverNeighbors_def neighborStep_def hoverEdgeHidden_def
      defocusTimerFires_def clickStageFlag_def
      hideByConf_def Let_def isNone_def trim_def toLowerCase_def toLowerChar_def isSpace_def)

end
